theory Spec2Isabelle
  imports Main "HOL-Library.AList"
begin

section \<open>Data model\<close>

text \<open>
  The types of \<^verbatim>\<open>types/index.ts\<close>. A JavaScript object used as a dictionary is an
  association list in the order \<^verbatim>\<open>Object.entries\<close> enumerates it: \<open>map_of\<close> reads a
  key, \<open>AList.update\<close> writes one (in place when the key is present, at the end when it
  is new) and \<open>AList.delete\<close> is the \<^verbatim>\<open>delete\<close> operator. Keys are ordinary node names
  and connection-type labels: names that are canonical array indices (which JavaScript
  enumerates first) or properties inherited from \<^verbatim>\<open>Object.prototype\<close> are outside the
  model. Index fields are JavaScript numbers; the model takes the integers.
\<close>

datatype error = N8nApiError string | TypeError string | OtherError string

record WorkflowNode =
  node_id :: string
  node_name :: string
  node_type :: string
  typeVersion :: int
  position :: "int \<times> int"
  parameters :: "(string \<times> string) list"

record NodeConnection =
  conn_node :: string
  conn_type :: string
  conn_index :: int

type_synonym ConnectionTypes = "(string \<times> NodeConnection list list) list"

type_synonym WorkflowConnections = "(string \<times> ConnectionTypes) list"

record Workflow =
  workflow_id :: string
  workflow_name :: string
  active :: bool
  nodes :: "WorkflowNode list"
  connections :: WorkflowConnections
  settings :: "(string \<times> string) list option"
  extra :: "(string \<times> string) list"

record ConnectionSpec =
  sourceNodeId :: string
  targetNodeId :: string
  sourceIndex :: "int option"
  targetIndex :: "int option"
  connectionType :: "string option"

record NodeValidationResult =
  nv_isValid :: bool
  nv_errors :: "string list"
  nv_nodeId :: "string option"

record WorkflowValidationResult =
  isValid :: bool
  errors :: "string list"
  nodeErrors :: "NodeValidationResult list"

section \<open>Array helpers\<close>

text \<open>\<^verbatim>\<open>Array.prototype.findIndex\<close>, with \<open>None\<close> for \<^verbatim>\<open>-1\<close>.\<close>

fun findIndex :: "('a \<Rightarrow> bool) \<Rightarrow> 'a list \<Rightarrow> nat option" where
  "findIndex P [] = None"
| "findIndex P (x # xs) =
     (if P x then Some 0 else map_option Suc (findIndex P xs))"

text \<open>\<^verbatim>\<open>xs.splice(i, 1)\<close>: the list without its element at position \<open>i\<close>.\<close>

definition splice1 :: "nat \<Rightarrow> 'a list \<Rightarrow> 'a list" where
  "splice1 i xs = take i xs @ drop (Suc i) xs"

text \<open>\<^verbatim>\<open>a || b\<close> on a possibly undefined string: the empty string is falsy.\<close>

definition or_else :: "string option \<Rightarrow> string \<Rightarrow> string" where
  "or_else a b = (case a of None \<Rightarrow> b | Some s \<Rightarrow> if s = [] then b else s)"

section \<open>Graph utilities (workflow-utils.ts)\<close>

definition findNodeByName :: "Workflow \<Rightarrow> string \<Rightarrow> WorkflowNode option" where
  "findNodeByName workflow nodeName = find (\<lambda>n. node_name n = nodeName) (nodes workflow)"

definition findNodeById :: "Workflow \<Rightarrow> string \<Rightarrow> WorkflowNode option" where
  "findNodeById workflow nodeId = find (\<lambda>n. node_id n = nodeId) (nodes workflow)"

definition getNodeNameById :: "Workflow \<Rightarrow> string \<Rightarrow> string option" where
  "getNodeNameById workflow nodeId = map_option node_name (findNodeById workflow nodeId)"

definition getNodeIdByName :: "Workflow \<Rightarrow> string \<Rightarrow> string option" where
  "getNodeIdByName workflow nodeName = map_option node_id (findNodeByName workflow nodeName)"

definition validateNodeExists :: "Workflow \<Rightarrow> string \<Rightarrow> NodeValidationResult" where
  "validateNodeExists workflow nodeId =
     (case findNodeById workflow nodeId of
        None \<Rightarrow> \<lparr>nv_isValid = False,
                 nv_errors = [''Node with ID '' @ [CHR 0x27] @ nodeId @ [CHR 0x27] @ '' not found in workflow''],
                 nv_nodeId = Some nodeId\<rparr>
      | Some n \<Rightarrow> \<lparr>nv_isValid = True, nv_errors = [], nv_nodeId = Some nodeId\<rparr>)"

fun validateNodesExist_loop ::
  "Workflow \<Rightarrow> string list \<Rightarrow> NodeValidationResult list \<Rightarrow> string list
     \<Rightarrow> NodeValidationResult list \<times> string list" where
  "validateNodesExist_loop workflow [] nodeErrs allErrs = (nodeErrs, allErrs)"
| "validateNodesExist_loop workflow (nodeId # rest) nodeErrs allErrs =
     (let validation = validateNodeExists workflow nodeId
      in if \<not> nv_isValid validation
         then validateNodesExist_loop workflow rest
                (nodeErrs @ [validation]) (allErrs @ nv_errors validation)
         else validateNodesExist_loop workflow rest nodeErrs allErrs)"

definition validateNodesExist :: "Workflow \<Rightarrow> string list \<Rightarrow> WorkflowValidationResult" where
  "validateNodesExist workflow nodeIds =
     (case validateNodesExist_loop workflow nodeIds [] [] of
        (nodeErrs, allErrs) \<Rightarrow>
          \<lparr>isValid = (length nodeErrs = 0), errors = allErrs, nodeErrors = nodeErrs\<rparr>)"

subsection \<open>removeNodeFromWorkflow\<close>

text \<open>
  The incoming-edge scan walks the output slots of one connection type from the last
  index down to 0, and each slot from its last edge down to its first. The model recurses
  on the list and handles the tail before the head, so the removed edges are collected in
  the order the loops push them. \<open>target\<close> is \<^verbatim>\<open>nodeNameToRemove\<close>, which is
  \<^verbatim>\<open>undefined\<close> (\<open>None\<close>) when the lookup found no node.
\<close>

fun scanSlot ::
  "string option \<Rightarrow> (NodeConnection \<Rightarrow> ConnectionSpec) \<Rightarrow> NodeConnection list
     \<Rightarrow> NodeConnection list \<times> ConnectionSpec list" where
  "scanSlot target mk [] = ([], [])"
| "scanSlot target mk (c # cs) =
     (case scanSlot target mk cs of
        (kept, removed) \<Rightarrow>
          if Some (conn_node c) = target then (kept, removed @ [mk c])
          else (c # kept, removed))"

fun scanSlots ::
  "string option \<Rightarrow> (nat \<Rightarrow> NodeConnection \<Rightarrow> ConnectionSpec) \<Rightarrow> nat
     \<Rightarrow> NodeConnection list list \<Rightarrow> NodeConnection list list \<times> ConnectionSpec list" where
  "scanSlots target mk i [] = ([], [])"
| "scanSlots target mk i (slot # rest) =
     (case scanSlots target mk (Suc i) rest of
        (rest', removedAbove) \<Rightarrow>
          (case scanSlot target (mk i) slot of
             (slot', removedHere) \<Rightarrow>
               (if length slot' = 0 then rest' else slot' # rest',
                removedAbove @ removedHere)))"

fun scanTypes ::
  "string option \<Rightarrow> (string \<Rightarrow> nat \<Rightarrow> NodeConnection \<Rightarrow> ConnectionSpec)
     \<Rightarrow> ConnectionTypes \<Rightarrow> ConnectionTypes \<times> ConnectionSpec list" where
  "scanTypes target mk [] = ([], [])"
| "scanTypes target mk ((ctype, arrays) # rest) =
     (case scanSlots target (mk ctype) 0 arrays of
        (arrays', removedHere) \<Rightarrow>
          (case scanTypes target mk rest of
             (rest', removedLater) \<Rightarrow>
               (if length arrays' = 0 then rest' else (ctype, arrays') # rest',
                removedHere @ removedLater)))"

fun scanSources ::
  "string option \<Rightarrow> (string \<Rightarrow> string \<Rightarrow> nat \<Rightarrow> NodeConnection \<Rightarrow> ConnectionSpec)
     \<Rightarrow> WorkflowConnections \<Rightarrow> WorkflowConnections \<times> ConnectionSpec list" where
  "scanSources target mk [] = ([], [])"
| "scanSources target mk ((sourceNodeName, conns) # rest) =
     (case scanTypes target (mk sourceNodeName) conns of
        (conns', removedHere) \<Rightarrow>
          (case scanSources target mk rest of
             (rest', removedLater) \<Rightarrow>
               (if length (map fst conns') = 0 then rest' else (sourceNodeName, conns') # rest',
                removedHere @ removedLater)))"

text \<open>The ConnectionSpec entries pushed for the outgoing edges of the removed node.\<close>

definition outgoingSpecs ::
  "Workflow \<Rightarrow> string \<Rightarrow> ConnectionTypes \<Rightarrow> ConnectionSpec list" where
  "outgoingSpecs workflow nodeId conns =
     concat (map (\<lambda>(ctype, arrays).
       map (\<lambda>c. \<lparr>sourceNodeId = nodeId,
                 targetNodeId = or_else (getNodeIdByName workflow (conn_node c)) (conn_node c),
                 sourceIndex = Some (conn_index c),
                 targetIndex = None,
                 connectionType = Some ctype\<rparr>) (concat arrays)) conns)"

definition incomingSpec ::
  "Workflow \<Rightarrow> string \<Rightarrow> string \<Rightarrow> string \<Rightarrow> nat \<Rightarrow> NodeConnection \<Rightarrow> ConnectionSpec" where
  "incomingSpec workflow nodeId sourceNodeName ctype i c =
     \<lparr>sourceNodeId = or_else (getNodeIdByName workflow sourceNodeName) sourceNodeName,
      targetNodeId = nodeId,
      sourceIndex = Some (int i),
      targetIndex = Some (conn_index c),
      connectionType = Some ctype\<rparr>"

text \<open>
  The function as written: the node is spliced out of \<^verbatim>\<open>workflow.nodes\<close> first, and its
  name is looked up afterwards, in the nodes that remain.
\<close>

definition removeNodeFromWorkflow :: "Workflow \<Rightarrow> string \<Rightarrow> ConnectionSpec list \<times> Workflow" where
  "removeNodeFromWorkflow workflow nodeId =
     (case findIndex (\<lambda>n. node_id n = nodeId) (nodes workflow) of
        None \<Rightarrow> ([], workflow)
      | Some nodeIndex \<Rightarrow>
          (let workflow1 = workflow\<lparr>nodes := splice1 nodeIndex (nodes workflow)\<rparr>;
               nodeNameToRemove = map_option node_name (findNodeById workflow1 nodeId);
               outgoing =
                 (case nodeNameToRemove of
                    None \<Rightarrow> None
                  | Some nm \<Rightarrow> if nm = [] then None
                              else map_option (\<lambda>conns. (nm, conns))
                                     (map_of (connections workflow1) nm));
               removed1 =
                 (case outgoing of
                    None \<Rightarrow> []
                  | Some (nm, conns) \<Rightarrow> outgoingSpecs workflow1 nodeId conns);
               connections1 =
                 (case outgoing of
                    None \<Rightarrow> connections workflow1
                  | Some (nm, conns) \<Rightarrow> AList.delete nm (connections workflow1))
           in (case scanSources nodeNameToRemove (incomingSpec workflow1 nodeId) connections1 of
                 (connections2, removed2) \<Rightarrow>
                   (removed1 @ removed2, workflow1\<lparr>connections := connections2\<rparr>))))"

subsection \<open>ConnectionSpec defaults\<close>

text \<open>
  The destructuring
  \<^verbatim>\<open>{ sourceIndex = 0, targetIndex = 0, connectionType = 'main' } = connection\<close>:
  a default applies where the field is undefined.
\<close>

definition sourceIndexOf :: "ConnectionSpec \<Rightarrow> int" where
  "sourceIndexOf connection = (case sourceIndex connection of None \<Rightarrow> 0 | Some i \<Rightarrow> i)"

definition targetIndexOf :: "ConnectionSpec \<Rightarrow> int" where
  "targetIndexOf connection = (case targetIndex connection of None \<Rightarrow> 0 | Some i \<Rightarrow> i)"

definition connectionTypeOf :: "ConnectionSpec \<Rightarrow> string" where
  "connectionTypeOf connection =
     (case connectionType connection of None \<Rightarrow> ''main'' | Some t \<Rightarrow> t)"

subsection \<open>addConnectionToWorkflow\<close>

text \<open>
  \<^verbatim>\<open>while (arrays.length <= sourceIndex) arrays.push([])\<close>.
\<close>

function padSlots :: "NodeConnection list list \<Rightarrow> int \<Rightarrow> NodeConnection list list" where
  "padSlots arrays srcIdx =
     (if int (length arrays) \<le> srcIdx then padSlots (arrays @ [[]]) srcIdx else arrays)"
  by pat_completeness auto
termination
  by (relation "measure (\<lambda>(arrays, srcIdx). nat (srcIdx + 1 - int (length arrays)))") auto

declare padSlots.simps [simp del]

definition sameEdge :: "string \<Rightarrow> int \<Rightarrow> string \<Rightarrow> NodeConnection \<Rightarrow> bool" where
  "sameEdge targetNodeName tgtIdx ctype conn \<longleftrightarrow>
     conn_node conn = targetNodeName \<and> conn_index conn = tgtIdx \<and> conn_type conn = ctype"

text \<open>
  The write to the connection table, once both names are known: the entry of the source
  and the slot list of the type are created where missing, the slot list is padded, and
  the edge is pushed onto slot \<open>srcIdx\<close> unless the slot already holds one with the same
  target name, target index and type. (For \<open>0 \<le> srcIdx\<close>; see below for the other case.)
\<close>

definition addEdge ::
  "WorkflowConnections \<Rightarrow> string \<Rightarrow> string \<Rightarrow> int \<Rightarrow> int \<Rightarrow> string \<Rightarrow> WorkflowConnections" where
  "addEdge conns sourceNodeName targetNodeName srcIdx tgtIdx ctype =
     (let byType = (case map_of conns sourceNodeName of None \<Rightarrow> [] | Some m \<Rightarrow> m);
          arrays = padSlots (case map_of byType ctype of None \<Rightarrow> [] | Some a \<Rightarrow> a) srcIdx;
          connectionArray = arrays ! nat srcIdx;
          connectionArray' =
            (case find (sameEdge targetNodeName tgtIdx ctype) connectionArray of
               None \<Rightarrow> connectionArray @
                 [\<lparr>conn_node = targetNodeName, conn_type = ctype, conn_index = tgtIdx\<rparr>]
             | Some existingConnection \<Rightarrow> connectionArray)
      in AList.update sourceNodeName
           (AList.update ctype (arrays[nat srcIdx := connectionArray']) byType) conns)"

text \<open>
  The result is \<open>Inl\<close> where the source throws: with a negative \<^verbatim>\<open>sourceIndex\<close> no slot
  is pushed, \<^verbatim>\<open>arrays[sourceIndex]\<close> is \<^verbatim>\<open>undefined\<close> and \<^verbatim>\<open>connectionArray.find\<close>
  raises a TypeError. Otherwise it is the returned boolean and the document.
\<close>

definition addConnectionToWorkflow ::
  "Workflow \<Rightarrow> ConnectionSpec \<Rightarrow> error + (bool \<times> Workflow)" where
  "addConnectionToWorkflow workflow connection =
     (let srcIdx = sourceIndexOf connection;
          tgtIdx = targetIndexOf connection;
          ctype = connectionTypeOf connection
      in if \<not> isValid (validateNodesExist workflow
                          [sourceNodeId connection, targetNodeId connection])
         then Inr (False, workflow)
         else
           (case (getNodeNameById workflow (sourceNodeId connection),
                  getNodeNameById workflow (targetNodeId connection)) of
              (Some sourceNodeName, Some targetNodeName) \<Rightarrow>
                if sourceNodeName = [] \<or> targetNodeName = [] then Inr (False, workflow)
                else if srcIdx < 0
                then Inl (TypeError ''Cannot read properties of undefined (reading find)'')
                else Inr (True, workflow\<lparr>connections :=
                       addEdge (connections workflow) sourceNodeName targetNodeName
                         srcIdx tgtIdx ctype\<rparr>)
            | _ \<Rightarrow> Inr (False, workflow)))"

text \<open>
  Reading the table: the slot list at a source and type (empty where the path is
  missing), and the edges of one slot of it.
\<close>

definition slotsAt :: "WorkflowConnections \<Rightarrow> string \<Rightarrow> string \<Rightarrow> NodeConnection list list" where
  "slotsAt conns sourceNodeName ctype =
     (case map_of conns sourceNodeName of
        None \<Rightarrow> []
      | Some byType \<Rightarrow> (case map_of byType ctype of None \<Rightarrow> [] | Some arrays \<Rightarrow> arrays))"

definition edgesAt :: "WorkflowConnections \<Rightarrow> string \<Rightarrow> string \<Rightarrow> nat \<Rightarrow> NodeConnection list" where
  "edgesAt conns sourceNodeName ctype i =
     (if i < length (slotsAt conns sourceNodeName ctype)
      then slotsAt conns sourceNodeName ctype ! i else [])"

text \<open>
  Invariant 3 of the data model: no empty output-slot array, no empty connection-type map
  and no empty source entry anywhere in the table.
\<close>

definition fullSlots :: "NodeConnection list list \<Rightarrow> bool" where
  "fullSlots arrays \<longleftrightarrow> arrays \<noteq> [] \<and> list_all (\<lambda>slot. slot \<noteq> []) arrays"

definition fullTypes :: "ConnectionTypes \<Rightarrow> bool" where
  "fullTypes byType \<longleftrightarrow> byType \<noteq> [] \<and> list_all (\<lambda>(ctype, arrays). fullSlots arrays) byType"

definition noEmptyLeaves :: "WorkflowConnections \<Rightarrow> bool" where
  "noEmptyLeaves conns \<longleftrightarrow> list_all (\<lambda>(sourceNodeName, byType). fullTypes byType) conns"

subsection \<open>removeConnectionFromWorkflow\<close>

text \<open>
  The removal itself, once the edge has been found at position \<open>connectionIndex\<close> of slot
  \<open>srcIdx\<close>: the edge is spliced out; a slot left empty is spliced out of the slot list;
  a slot list left empty is deleted from the source's entry; an entry left without keys
  is deleted from the table.
\<close>

definition removeEdgeAt ::
  "WorkflowConnections \<Rightarrow> string \<Rightarrow> string \<Rightarrow> ConnectionTypes \<Rightarrow> NodeConnection list list
     \<Rightarrow> nat \<Rightarrow> nat \<Rightarrow> WorkflowConnections" where
  "removeEdgeAt conns sourceNodeName ctype byType arrays srcIdx connectionIndex =
     (let connectionArray' = splice1 connectionIndex (arrays ! srcIdx)
      in if length connectionArray' = 0
         then (let arrays' = splice1 srcIdx arrays
               in if length arrays' = 0
                  then (let byType' = AList.delete ctype byType
                        in if length (map fst byType') = 0
                           then AList.delete sourceNodeName conns
                           else AList.update sourceNodeName byType' conns)
                  else AList.update sourceNodeName (AList.update ctype arrays' byType) conns)
         else AList.update sourceNodeName
                (AList.update ctype (arrays[srcIdx := connectionArray']) byType) conns)"

text \<open>
  The guard \<^verbatim>\<open>!workflow.connections[sourceNodeName]?.[connectionType]?.[sourceIndex]\<close>
  is the chain of lookups below: objects and arrays are truthy, so the guard fires exactly
  where one step of the path is undefined.
\<close>

definition removeConnectionFromWorkflow ::
  "Workflow \<Rightarrow> ConnectionSpec \<Rightarrow> bool \<times> Workflow" where
  "removeConnectionFromWorkflow workflow connection =
     (let srcIdx = sourceIndexOf connection;
          tgtIdx = targetIndexOf connection;
          ctype = connectionTypeOf connection
      in (case (getNodeNameById workflow (sourceNodeId connection),
                getNodeNameById workflow (targetNodeId connection)) of
            (Some sourceNodeName, Some targetNodeName) \<Rightarrow>
              if sourceNodeName = [] \<or> targetNodeName = [] then (False, workflow)
              else
                (case map_of (connections workflow) sourceNodeName of
                   None \<Rightarrow> (False, workflow)
                 | Some byType \<Rightarrow>
                     (case map_of byType ctype of
                        None \<Rightarrow> (False, workflow)
                      | Some arrays \<Rightarrow>
                          if \<not> (0 \<le> srcIdx \<and> nat srcIdx < length arrays)
                          then (False, workflow)
                          else
                            (case findIndex (sameEdge targetNodeName tgtIdx ctype)
                                    (arrays ! nat srcIdx) of
                               None \<Rightarrow> (False, workflow)
                             | Some connectionIndex \<Rightarrow>
                                 (True, workflow\<lparr>connections :=
                                    removeEdgeAt (connections workflow) sourceNodeName ctype
                                      byType arrays (nat srcIdx) connectionIndex\<rparr>))))
          | _ \<Rightarrow> (False, workflow)))"

subsection \<open>cleanupCorruptedConnections\<close>

text \<open>
  Merging the slot lists of one connection type: \<^verbatim>\<open>!target[i]\<close> holds exactly from the
  end of the target list on (arrays are truthy), where the assignment at index
  \<^verbatim>\<open>target.length\<close> extends the list; before that the incoming edges are pushed onto
  the slot.
\<close>

fun mergeSlots ::
  "NodeConnection list list \<Rightarrow> NodeConnection list list \<Rightarrow> NodeConnection list list" where
  "mergeSlots current [] = current"
| "mergeSlots [] incoming = incoming"
| "mergeSlots (c # current) (a # incoming) = (c @ a) # mergeSlots current incoming"

fun mergeTypes :: "ConnectionTypes \<Rightarrow> ConnectionTypes \<Rightarrow> ConnectionTypes" where
  "mergeTypes current [] = current"
| "mergeTypes current ((ctype, arrays) # rest) =
     mergeTypes
       (case map_of current ctype of
          None \<Rightarrow> AList.update ctype arrays current
        | Some existing \<Rightarrow> AList.update ctype (mergeSlots existing arrays) current)
       rest"

text \<open>A key is corrupted when it is some node's ID and no node's name.\<close>

definition isCorruptedKey :: "Workflow \<Rightarrow> string \<Rightarrow> bool" where
  "isCorruptedKey workflow connectionKey \<longleftrightarrow>
     findNodeById workflow connectionKey \<noteq> None \<and> findNodeByName workflow connectionKey = None"

fun connectionsToFix ::
  "Workflow \<Rightarrow> WorkflowConnections \<Rightarrow> (string \<times> string \<times> ConnectionTypes) list" where
  "connectionsToFix workflow [] = []"
| "connectionsToFix workflow ((connectionKey, conns) # rest) =
     (case findNodeById workflow connectionKey of
        None \<Rightarrow> connectionsToFix workflow rest
      | Some nodeById \<Rightarrow>
          (case findNodeByName workflow connectionKey of
             None \<Rightarrow> (connectionKey, node_name nodeById, conns) # connectionsToFix workflow rest
           | Some nodeByName \<Rightarrow> connectionsToFix workflow rest))"

fun applyFixes ::
  "(string \<times> string \<times> ConnectionTypes) list \<Rightarrow> WorkflowConnections \<Rightarrow> nat
     \<Rightarrow> nat \<times> WorkflowConnections" where
  "applyFixes [] conns fixedCount = (fixedCount, conns)"
| "applyFixes ((oldKey, newKey, fixConns) # rest) conns fixedCount =
     (let conns1 = AList.delete oldKey conns
      in case map_of conns1 newKey of
           None \<Rightarrow> applyFixes rest (AList.update newKey fixConns conns1) (fixedCount + 1)
         | Some existing \<Rightarrow>
             applyFixes rest
               (AList.update newKey (mergeTypes existing fixConns) conns1) (fixedCount + 1))"

definition cleanupCorruptedConnections :: "Workflow \<Rightarrow> nat \<times> Workflow" where
  "cleanupCorruptedConnections workflow =
     (case applyFixes (connectionsToFix workflow (connections workflow))
             (connections workflow) 0 of
        (fixedCount, conns) \<Rightarrow> (fixedCount, workflow\<lparr>connections := conns\<rparr>))"

subsection \<open>validateWorkflowIntegrity\<close>

definition quoted :: "string \<Rightarrow> string" where
  "quoted s = [CHR 0x27] @ s @ [CHR 0x27]"

fun checkNodes ::
  "WorkflowNode list \<Rightarrow> string set \<Rightarrow> string set \<Rightarrow> string list
     \<Rightarrow> string set \<times> string set \<times> string list" where
  "checkNodes [] nodeIds nodeNames errs = (nodeIds, nodeNames, errs)"
| "checkNodes (n # rest) nodeIds nodeNames errs =
     (let errs1 = (if node_id n \<in> nodeIds
                   then errs @ [''Duplicate node ID found: '' @ node_id n] else errs);
          errs2 = (if node_name n \<in> nodeNames
                   then errs1 @ [''Duplicate node name found: '' @ node_name n] else errs1)
      in checkNodes rest (insert (node_id n) nodeIds) (insert (node_name n) nodeNames) errs2)"

fun checkEdges :: "string set \<Rightarrow> NodeConnection list \<Rightarrow> string list \<Rightarrow> string list" where
  "checkEdges nodeNames [] errs = errs"
| "checkEdges nodeNames (c # rest) errs =
     checkEdges nodeNames rest
       (if conn_node c \<notin> nodeNames
        then errs @ [''Connection target node '' @ quoted (conn_node c) @ '' does not exist'']
        else errs)"

fun checkConnections ::
  "string set \<Rightarrow> WorkflowConnections \<Rightarrow> string list \<Rightarrow> string list" where
  "checkConnections nodeNames [] errs = errs"
| "checkConnections nodeNames ((sourceNodeName, conns) # rest) errs =
     (if sourceNodeName \<notin> nodeNames
      then checkConnections nodeNames rest
             (errs @ [''Connection source node '' @ quoted sourceNodeName @ '' does not exist''])
      else checkConnections nodeNames rest
             (checkEdges nodeNames (concat (concat (map snd conns))) errs))"

definition validateWorkflowIntegrity :: "Workflow \<Rightarrow> WorkflowValidationResult" where
  "validateWorkflowIntegrity workflow =
     (case checkNodes (nodes workflow) {} {} [] of
        (nodeIds, nodeNames, errs) \<Rightarrow>
          (let errs' = checkConnections nodeNames (connections workflow) errs
           in \<lparr>isValid = (length errs' = 0), errors = errs', nodeErrors = []\<rparr>))"

text \<open>
  Invariant 2 of the data model, for a given set of node names: every key of the
  connection table and every edge target is one of the names.
\<close>

definition edgesResolve :: "string set \<Rightarrow> WorkflowConnections \<Rightarrow> bool" where
  "edgesResolve names conns \<longleftrightarrow>
     (\<forall>(sourceNodeName, byType) \<in> set conns.
        sourceNodeName \<in> names \<and>
        (\<forall>(ctype, arrays) \<in> set byType.
           \<forall>slot \<in> set arrays. \<forall>c \<in> set slot. conn_node c \<in> names))"

subsection \<open>The ID-keyed revision of removeNodeFromWorkflow\<close>

text \<open>
  The revision of the function in \<^verbatim>\<open>src/utils/workflow-utils.ts\<close> that addresses the
  connection table by the node ID itself. It needs no name lookup after the splice.
\<close>

definition incomingSpecById :: "string \<Rightarrow> string \<Rightarrow> string \<Rightarrow> nat \<Rightarrow> NodeConnection \<Rightarrow> ConnectionSpec" where
  "incomingSpecById nodeId srcId ctype i c =
     \<lparr>sourceNodeId = srcId, targetNodeId = nodeId, sourceIndex = Some (int i),
      targetIndex = Some (conn_index c), connectionType = Some ctype\<rparr>"

definition removeNodeFromWorkflowById :: "Workflow \<Rightarrow> string \<Rightarrow> ConnectionSpec list \<times> Workflow" where
  "removeNodeFromWorkflowById workflow nodeId =
     (case findIndex (\<lambda>n. node_id n = nodeId) (nodes workflow) of
        None \<Rightarrow> ([], workflow)
      | Some nodeIndex \<Rightarrow>
          (let workflow1 = workflow\<lparr>nodes := splice1 nodeIndex (nodes workflow)\<rparr>;
               removed1 =
                 (case map_of (connections workflow1) nodeId of
                    None \<Rightarrow> []
                  | Some conns \<Rightarrow>
                      concat (map (\<lambda>(ctype, arrays).
                        map (\<lambda>c. \<lparr>sourceNodeId = nodeId, targetNodeId = conn_node c,
                                  sourceIndex = Some (conn_index c), targetIndex = None,
                                  connectionType = Some ctype\<rparr>) (concat arrays)) conns));
               connections1 = AList.delete nodeId (connections workflow1)
           in (case scanSources (Some nodeId) (incomingSpecById nodeId) connections1 of
                 (connections2, removed2) \<Rightarrow>
                   (removed1 @ removed2, workflow1\<lparr>connections := connections2\<rparr>))))"

section \<open>Safe-update orchestrator (base-node-handler.ts)\<close>

text \<open>\<^verbatim>\<open>xs.join(sep)\<close>.\<close>

fun join :: "string \<Rightarrow> string list \<Rightarrow> string" where
  "join sep [] = []"
| "join sep [x] = x"
| "join sep (x # y # rest) = x @ sep @ join sep (y # rest)"

text \<open>
  What the remote API receives on a write: the workflow without the fields the cleaner
  deletes. \<open>extra\<close> holds the remaining top-level properties of the fetched object by
  name (values are opaque to this layer).
\<close>

record CleanedWorkflow =
  cleaned_name :: string
  cleaned_nodes :: "WorkflowNode list"
  cleaned_connections :: WorkflowConnections
  cleaned_settings :: "(string \<times> string) list option"
  cleaned_extra :: "(string \<times> string) list"

definition readOnlyFields :: "string list" where
  "readOnlyFields = [''pinData'', ''versionId'', ''staticData'', ''meta'', ''shared'',
     ''createdAt'', ''updatedAt'', ''id'', ''triggerCount'', ''isArchived'', ''active'', ''tags'']"

definition cleanWorkflowForUpdate :: "Workflow \<Rightarrow> CleanedWorkflow" where
  "cleanWorkflowForUpdate workflow =
     \<lparr>cleaned_name = workflow_name workflow,
      cleaned_nodes = nodes workflow,
      cleaned_connections = connections workflow,
      cleaned_settings =
        map_option (filter (\<lambda>(k, v). k \<noteq> ''callerIds'' \<and> k \<noteq> ''callerPolicy''))
          (settings workflow),
      cleaned_extra = filter (\<lambda>(k, v). k \<notin> set readOnlyFields) (extra workflow)\<rparr>"

text \<open>
  The remote store is an explicit state \<open>'s\<close>; each API call returns its result and the
  store after the call. The orchestrator also returns the calls it made, in order.
\<close>

record 's ApiService =
  getWorkflow :: "string \<Rightarrow> 's \<Rightarrow> (error + Workflow) \<times> 's"
  updateWorkflow :: "string \<Rightarrow> CleanedWorkflow \<Rightarrow> 's \<Rightarrow> (error + Workflow) \<times> 's"

datatype ApiCall = GetWorkflowCall string | UpdateWorkflowCall string CleanedWorkflow

text \<open>The text \<^verbatim>\<open>`${error}`\<close> gives for a caught error.\<close>

fun errorText :: "error \<Rightarrow> string" where
  "errorText (N8nApiError m) = ''N8nApiError: '' @ m"
| "errorText (TypeError m) = ''TypeError: '' @ m"
| "errorText (OtherError m) = ''Error: '' @ m"

text \<open>The catch block: an N8nApiError is rethrown, anything else is wrapped.\<close>

fun rethrow :: "error \<Rightarrow> error" where
  "rethrow (N8nApiError m) = N8nApiError m"
| "rethrow e = N8nApiError (''Failed to update workflow: '' @ errorText e)"

text \<open>
  \<open>workflowUpdater\<close> receives the working copy and either throws or leaves the mutated
  copy. The deep copy through JSON is the identity on values.
\<close>

definition updateWorkflowSafely ::
  "'s ApiService \<Rightarrow> string \<Rightarrow> (Workflow \<Rightarrow> error + Workflow) \<Rightarrow> bool \<Rightarrow> 's
     \<Rightarrow> (error + Workflow) \<times> 's \<times> ApiCall list" where
  "updateWorkflowSafely api workflowId workflowUpdater validateIntegrity s =
     (case getWorkflow api workflowId s of
        (Inl e, s1) \<Rightarrow> (Inl e, s1, [GetWorkflowCall workflowId])
      | (Inr currentWorkflow, s1) \<Rightarrow>
          (case workflowUpdater currentWorkflow of
             Inl e \<Rightarrow> (Inl (rethrow e), s1, [GetWorkflowCall workflowId])
           | Inr workflowCopy \<Rightarrow>
               (let validation = validateWorkflowIntegrity workflowCopy
                in if validateIntegrity \<and> \<not> isValid validation
                   then (Inl (N8nApiError (''Workflow integrity validation failed: ''
                                @ join '', '' (errors validation))),
                         s1, [GetWorkflowCall workflowId])
                   else
                     (let cleanedWorkflow = cleanWorkflowForUpdate workflowCopy
                      in case updateWorkflow api workflowId cleanedWorkflow s1 of
                           (Inl e, s2) \<Rightarrow>
                             (Inl (rethrow e), s2,
                              [GetWorkflowCall workflowId,
                               UpdateWorkflowCall workflowId cleanedWorkflow])
                         | (Inr updatedWorkflow, s2) \<Rightarrow>
                             (Inr updatedWorkflow, s2,
                              [GetWorkflowCall workflowId,
                               UpdateWorkflowCall workflowId cleanedWorkflow])))))"

section \<open>Update guard and merge (update_workflow tool)\<close>

text \<open>
  This layer handles nodes as untyped objects: a node is the list of its properties, the
  value of each kept as text, and its ID is the property \<open>id\<close>. An incoming connections
  object may hold a value that is no object at a source (\<open>None\<close>), and a value that is no
  array at a connection type (\<open>None\<close>); the merge skips both.
\<close>

type_synonym JsObject = "(string \<times> string) list"

type_synonym NewConnections =
  "(string \<times> (string \<times> NodeConnection list list option) list option) list"

datatype updateMode = Merge | Replace

record CurrentWorkflow =
  current_nodes :: "JsObject list"
  current_connections :: WorkflowConnections

record Updates =
  upd_nodes :: "JsObject list option"
  upd_connections :: "NewConnections option"


definition digitChar :: "nat \<Rightarrow> char" where
  "digitChar d = char_of (48 + d)"

function showNat :: "nat \<Rightarrow> string" where
  "showNat n = (if n < 10 then [digitChar n] else showNat (n div 10) @ [digitChar (n mod 10)])"
  by pat_completeness auto
termination
  by (relation "measure id") auto

declare showNat.simps [simp del]





subsection \<open>mergeNodes and mergeConnections\<close>

text \<open>The object spread \<^verbatim>\<open>{ ...a, ...b }\<close>.\<close>

definition spread :: "JsObject \<Rightarrow> JsObject \<Rightarrow> JsObject" where
  "spread a b = fold (\<lambda>(k, v). AList.update k v) b a"

definition idOf :: "JsObject \<Rightarrow> string option" where
  "idOf n = map_of n ''id''"

text \<open>\<^verbatim>\<open>newNode.id\<close> is truthy: present and not the empty string.\<close>

definition truthyId :: "JsObject \<Rightarrow> bool" where
  "truthyId n \<longleftrightarrow> (case idOf n of None \<Rightarrow> False | Some i \<Rightarrow> i \<noteq> [])"

fun mergeNodes_loop ::
  "JsObject list \<Rightarrow> string option set \<Rightarrow> JsObject list \<Rightarrow> JsObject list" where
  "mergeNodes_loop merged existingIds [] = merged"
| "mergeNodes_loop merged existingIds (newNode # rest) =
     (if truthyId newNode \<and> idOf newNode \<in> existingIds
      then (case findIndex (\<lambda>n. idOf n = idOf newNode) merged of
              Some i \<Rightarrow> mergeNodes_loop (merged[i := spread (merged ! i) newNode]) existingIds rest
            | None \<Rightarrow> mergeNodes_loop merged existingIds rest)
      else mergeNodes_loop (merged @ [newNode])
             (if truthyId newNode then insert (idOf newNode) existingIds else existingIds) rest)"

text \<open>\<open>existingIds\<close> is the set of the \<^verbatim>\<open>id\<close> values of the current nodes, \<^verbatim>\<open>undefined\<close> included.\<close>

definition mergeNodes :: "JsObject list \<Rightarrow> JsObject list \<Rightarrow> JsObject list" where
  "mergeNodes currentNodes newNodes =
     mergeNodes_loop currentNodes (set (map idOf currentNodes)) newNodes"

fun mergeConnectionTypes ::
  "ConnectionTypes \<Rightarrow> (string \<times> NodeConnection list list option) list \<Rightarrow> ConnectionTypes" where
  "mergeConnectionTypes target [] = target"
| "mergeConnectionTypes target ((ctype, connectionArrays) # rest) =
     (case connectionArrays of
        Some arrays \<Rightarrow> mergeConnectionTypes (AList.update ctype arrays target) rest
      | None \<Rightarrow> mergeConnectionTypes target rest)"

fun mergeConnections :: "WorkflowConnections \<Rightarrow> NewConnections \<Rightarrow> WorkflowConnections" where
  "mergeConnections merged [] = merged"
| "mergeConnections merged ((sourceNode, conns) # rest) =
     (case conns of
        Some byType \<Rightarrow>
          mergeConnections
            (AList.update sourceNode
               (mergeConnectionTypes
                  (case map_of merged sourceNode of None \<Rightarrow> [] | Some existing \<Rightarrow> existing)
                  byType)
               merged)
            rest
      | None \<Rightarrow> mergeConnections merged rest)"

section \<open>Execution poller (execute.ts)\<close>

text \<open>
  The fields of a fetched execution that the poll loop reads. Timestamps are milliseconds
  (what \<^verbatim>\<open>new Date(s).getTime()\<close> yields); \<open>ex_errorMessage\<close> is
  \<^verbatim>\<open>data?.resultData?.error?.message\<close>.
\<close>

record Execution =
  ex_workflowId :: string
  ex_finished :: "bool option"
  ex_status :: "string option"
  ex_startedAt :: int
  ex_stoppedAt :: "int option"
  ex_errorMessage :: "string option"

record PollResult =
  res_executionId :: string
  res_workflowId :: "string option"
  res_status :: string
  res_duration :: int
  res_error :: "string option"

text \<open>
  The clock is explicit. Time is counted in milliseconds from \<^verbatim>\<open>startTime\<close>. The
  environment fixes, for the \<open>n\<close>-th call of \<^verbatim>\<open>getExecution\<close>, what it returns
  (\<open>Inl\<close>: it throws) and how long it takes, and by how much the \<open>n\<close>-th wait overruns
  the interval asked of \<^verbatim>\<open>setTimeout\<close>.
\<close>

record PollEnv =
  fetch :: "nat \<Rightarrow> error + Execution"
  latency :: "nat \<Rightarrow> nat"
  oversleep :: "nat \<Rightarrow> nat"

text \<open>The values the variable \<^verbatim>\<open>pollInterval\<close> takes.\<close>

datatype pollInterval = Every2s | Every5s | Every10s

fun intervalMs :: "pollInterval \<Rightarrow> nat" where
  "intervalMs Every2s = 2000"
| "intervalMs Every5s = 5000"
| "intervalMs Every10s = 10000"

definition showInt :: "int \<Rightarrow> string" where
  "showInt i = (if i < 0 then ''-'' @ showNat (nat (- i)) else showNat (nat i))"

definition timeoutResult :: "string \<Rightarrow> int \<Rightarrow> PollResult" where
  "timeoutResult executionId timeoutSeconds =
     \<lparr>res_executionId = executionId,
      res_workflowId = None,
      res_status = ''timeout'',
      res_duration = timeoutSeconds * 1000,
      res_error = Some (''Execution timed out after '' @ showInt timeoutSeconds @ '' seconds'')\<rparr>"

definition completedResult :: "string \<Rightarrow> Execution \<Rightarrow> nat \<Rightarrow> PollResult" where
  "completedResult executionId execution now =
     \<lparr>res_executionId = executionId,
      res_workflowId = Some (ex_workflowId execution),
      res_status = or_else (ex_status execution)
                     (if ex_finished execution = Some True then ''success'' else ''error''),
      res_duration = (case ex_stoppedAt execution of
                        Some stopped \<Rightarrow> stopped - ex_startedAt execution
                      | None \<Rightarrow> int now),
      res_error = (if ex_status execution = Some ''error'' then ex_errorMessage execution
                   else None)\<rparr>"

function pollLoop ::
  "PollEnv \<Rightarrow> string \<Rightarrow> int \<Rightarrow> nat \<Rightarrow> pollInterval \<Rightarrow> nat \<Rightarrow> error + PollResult" where
  "pollLoop env executionId timeoutSeconds elapsed interval pollCount =
     (if int elapsed < timeoutSeconds * 1000
      then (case fetch env pollCount of
              Inl e \<Rightarrow> Inl e
            | Inr execution \<Rightarrow>
                (let now = elapsed + latency env pollCount
                 in if ex_finished execution \<noteq> None \<and> ex_finished execution \<noteq> Some False
                    then Inr (completedResult executionId execution now)
                    else
                      (let interval' = (if now > 90000 then Every10s
                                        else if now > 30000 then Every5s else interval)
                       in pollLoop env executionId timeoutSeconds
                            (now + intervalMs interval' + oversleep env pollCount)
                            interval' (Suc pollCount))))
      else Inr (timeoutResult executionId timeoutSeconds))"
  by pat_completeness auto
termination
proof (relation "measure (\<lambda>(env, executionId, timeoutSeconds, elapsed, interval, pollCount).
                   nat (timeoutSeconds * 1000 - int elapsed))")
  show "wf (measure (\<lambda>(env, executionId, timeoutSeconds, elapsed, interval, pollCount).
                   nat (timeoutSeconds * 1000 - int elapsed)))"
    by simp
next
  fix env :: PollEnv and executionId :: string and timeoutSeconds :: int and elapsed :: nat
    and interval :: pollInterval and pollCount :: nat and execution now interval'
  assume running: "int elapsed < timeoutSeconds * 1000"
    and now: "now = elapsed + latency env pollCount"
    and interval': "interval' = (if 90000 < now then Every10s
                                else if 30000 < now then Every5s else interval)"
  have "0 < intervalMs interval'"
    by (cases interval') simp_all
  with running now
  show "((env, executionId, timeoutSeconds,
          now + intervalMs interval' + oversleep env pollCount, interval', Suc pollCount),
         (env, executionId, timeoutSeconds, elapsed, interval, pollCount))
        \<in> measure (\<lambda>(env, executionId, timeoutSeconds, elapsed, interval, pollCount).
                   nat (timeoutSeconds * 1000 - int elapsed))"
    by simp
qed

declare pollLoop.simps [simp del]

definition pollExecutionCompletion :: "PollEnv \<Rightarrow> string \<Rightarrow> int \<Rightarrow> error + PollResult" where
  "pollExecutionCompletion env executionId timeoutSeconds =
     pollLoop env executionId timeoutSeconds 0 Every2s 0"

text \<open>
  The state at the head of the \<open>n\<close>-th iteration of the loop, when none of the earlier
  fetches has ended it: the time elapsed since \<^verbatim>\<open>startTime\<close> and the value of
  \<^verbatim>\<open>pollInterval\<close>. The \<open>n\<close>-th call of \<^verbatim>\<open>getExecution\<close> is made exactly when that
  time is below the timeout.
\<close>

fun pollState :: "PollEnv \<Rightarrow> nat \<Rightarrow> nat \<times> pollInterval" where
  "pollState env 0 = (0, Every2s)"
| "pollState env (Suc n) =
     (case pollState env n of
        (elapsed, interval) \<Rightarrow>
          (let now = elapsed + latency env n;
               interval' = (if now > 90000 then Every10s
                            else if now > 30000 then Every5s else interval)
           in (now + intervalMs interval' + oversleep env n, interval')))"

definition pollStart :: "PollEnv \<Rightarrow> nat \<Rightarrow> nat" where
  "pollStart env n = fst (pollState env n)"

section \<open>Example documents\<close>

definition mkNode :: "string \<Rightarrow> string \<Rightarrow> WorkflowNode" where
  "mkNode i n = \<lparr>node_id = i, node_name = n, node_type = ''n8n-nodes-base.set'',
                 typeVersion = 1, position = (0, 0), parameters = []\<rparr>"

definition mkEdge :: "string \<Rightarrow> NodeConnection" where
  "mkEdge n = \<lparr>conn_node = n, conn_type = ''main'', conn_index = 0\<rparr>"

definition mkWorkflow :: "WorkflowNode list \<Rightarrow> WorkflowConnections \<Rightarrow> Workflow" where
  "mkWorkflow ns cs = \<lparr>workflow_id = ''w1'', workflow_name = ''example'', active = False,
     nodes = ns, connections = cs, settings = None, extra = []\<rparr>"

definition mkSpec :: "string \<Rightarrow> string \<Rightarrow> int \<Rightarrow> ConnectionSpec" where
  "mkSpec src tgt i = \<lparr>sourceNodeId = src, targetNodeId = tgt, sourceIndex = Some i,
     targetIndex = Some 0, connectionType = Some ''main''\<rparr>"

text \<open>Three nodes chained by single edges, A to B and B to C; each node's name is its ID.\<close>

definition chainABC :: Workflow where
  "chainABC = mkWorkflow [mkNode ''A'' ''A'', mkNode ''B'' ''B'', mkNode ''C'' ''C'']
     [(''A'', [(''main'', [[mkEdge ''B'']])]), (''B'', [(''main'', [[mkEdge ''C'']])])]"



text \<open>
  A remote store that holds one workflow: a fetch returns it, a write replaces its nodes
  and connections.
\<close>

definition storeApi :: "Workflow ApiService" where
  "storeApi = \<lparr>getWorkflow = (\<lambda>workflowId s. (Inr s, s)),
               updateWorkflow = (\<lambda>workflowId c s.
                 (Inr (s\<lparr>nodes := cleaned_nodes c, connections := cleaned_connections c\<rparr>),
                  s\<lparr>nodes := cleaned_nodes c, connections := cleaned_connections c\<rparr>))\<rparr>"

text \<open>A mutator that adds an edge to a missing node and an entry for a missing source.\<close>

definition danglingUpdater :: "Workflow \<Rightarrow> error + Workflow" where
  "danglingUpdater w =
     Inr (w\<lparr>connections := [(''A'', [(''main'', [[mkEdge ''nowhere'']])]),
                             (''ghost'', [(''main'', [[mkEdge ''A'']])])]\<rparr>)"

text \<open>
  An execution that is running at the first three polls and finished from the fourth on,
  and one whose first status fetch takes six seconds and then reports it finished.
\<close>

definition runningExecution :: Execution where
  "runningExecution = \<lparr>ex_workflowId = ''w1'', ex_finished = Some False,
     ex_status = Some ''running'', ex_startedAt = 0, ex_stoppedAt = None,
     ex_errorMessage = None\<rparr>"

definition finishedExecution :: Execution where
  "finishedExecution = \<lparr>ex_workflowId = ''w1'', ex_finished = Some True,
     ex_status = Some ''success'', ex_startedAt = 0, ex_stoppedAt = None,
     ex_errorMessage = None\<rparr>"

definition lateFinish :: PollEnv where
  "lateFinish = \<lparr>fetch = (\<lambda>n. if n < 3 then Inr runningExecution else Inr finishedExecution),
     latency = (\<lambda>n. 150), oversleep = (\<lambda>n. 7)\<rparr>"

definition slowFinish :: PollEnv where
  "slowFinish = \<lparr>fetch = (\<lambda>n. Inr finishedExecution), latency = (\<lambda>n. 6000),
     oversleep = (\<lambda>n. 0)\<rparr>"

text \<open>Source A with two output slots: slot 0 leads to B, slot 1 to C.\<close>

definition twoSlots :: Workflow where
  "twoSlots = mkWorkflow [mkNode ''A'' ''A'', mkNode ''B'' ''B'', mkNode ''C'' ''C'']
     [(''A'', [(''main'', [[mkEdge ''B''], [mkEdge ''C'']])])]"

text \<open>Merge inputs: two current nodes and connection sources X and Y; the update names X only.\<close>

definition currentXY :: CurrentWorkflow where
  "currentXY = \<lparr>current_nodes = [[(''id'', ''X''), (''name'', ''X'')], [(''id'', ''Y''), (''name'', ''Y'')]],
     current_connections = [(''X'', [(''main'', [[mkEdge ''Y'']])]),
                            (''Y'', [(''main'', [[mkEdge ''X'']])])]\<rparr>"

definition updateX :: Updates where
  "updateX = \<lparr>upd_nodes = Some [[(''id'', ''X''), (''name'', ''renamed'')], [(''id'', ''Z'')]],
     upd_connections = Some [(''X'', Some [(''main'', Some [[mkEdge ''Z'']])])]\<rparr>"

text \<open>
  A document whose connection table uses the ID \<open>node1\<close> as a key, next to the entry
  under the node's name.
\<close>

definition corruptedDoc :: Workflow where
  "corruptedDoc = mkWorkflow [mkNode ''node1'' ''Start'', mkNode ''node2'' ''HTTP'']
     [(''node1'', [(''main'', [[mkEdge ''HTTP'']])]),
      (''Start'', [(''main'', [[\<lparr>conn_node = ''HTTP'', conn_type = ''main'', conn_index = 1\<rparr>]])])]"

text \<open>Two nodes without connections; in the second document node A has the empty name.\<close>

definition unconnectedAB :: Workflow where
  "unconnectedAB = mkWorkflow [mkNode ''A'' ''A'', mkNode ''B'' ''B''] []"

definition emptyNameDoc :: Workflow where
  "emptyNameDoc = mkWorkflow [mkNode ''A'' [], mkNode ''B'' ''B''] []"

text \<open>Slot 0 of source A already holds the edge to B twice.\<close>

definition duplicateEdgeDoc :: Workflow where
  "duplicateEdgeDoc = mkWorkflow [mkNode ''A'' ''A'', mkNode ''B'' ''B'']
     [(''A'', [(''main'', [[mkEdge ''B'', mkEdge ''B'']])])]"

lemmas example_defs = mkNode_def mkEdge_def mkWorkflow_def mkSpec_def chainABC_def

section \<open>Node removal\<close>

text \<open>
  C1. Addressing integrity: a document that validateWorkflowIntegrity reports valid is
  still reported valid after a successful addConnectionToWorkflow or after
  removeNodeFromWorkflow on an existing node ID. The code does not keep this for node
  removal: the chain A, B, C is valid, B is one of its nodes, and after removing B the
  validator reports the document invalid, because the connection entry keyed B and the
  edge from A to B are both still there.
\<close>

theorem removeNode_breaks_integrity:
  "isValid (validateWorkflowIntegrity chainABC)
   \<and> findNodeById chainABC ''B'' \<noteq> None
   \<and> \<not> isValid (validateWorkflowIntegrity (snd (removeNodeFromWorkflow chainABC ''B'')))
   \<and> errors (validateWorkflowIntegrity (snd (removeNodeFromWorkflow chainABC ''B''))) =
       [''Connection target node '' @ quoted ''B'' @ '' does not exist'',
        ''Connection source node '' @ quoted ''B'' @ '' does not exist'']"
  by (simp add: validateWorkflowIntegrity_def removeNodeFromWorkflow_def example_defs
        splice1_def findNodeById_def quoted_def)

text \<open>
  C2. Round trip of node removal: removeNodeFromWorkflow returns exactly the connections
  that touched the removed node and takes them out of the document. The code does
  neither on the chain A, B, C: removing B returns no ConnectionSpec at all and leaves
  the whole connection table as it was, where the ID-keyed revision of the same function
  returns the two entries B to C and A to B and empties the table.
\<close>

theorem removeNode_returns_no_connections:
  "removeNodeFromWorkflow chainABC ''B'' =
     ([], chainABC\<lparr>nodes := [mkNode ''A'' ''A'', mkNode ''C'' ''C'']\<rparr>)
   \<and> removeNodeFromWorkflowById chainABC ''B'' =
     ([\<lparr>sourceNodeId = ''B'', targetNodeId = ''C'', sourceIndex = Some 0,
        targetIndex = None, connectionType = Some ''main''\<rparr>,
       \<lparr>sourceNodeId = ''A'', targetNodeId = ''B'', sourceIndex = Some 0,
        targetIndex = Some 0, connectionType = Some ''main''\<rparr>],
      chainABC\<lparr>nodes := [mkNode ''A'' ''A'', mkNode ''C'' ''C''], connections := []\<rparr>)"
  by (simp add: removeNodeFromWorkflow_def removeNodeFromWorkflowById_def example_defs
        splice1_def findNodeById_def incomingSpecById_def)

lemma scanSlot_None: "scanSlot None mk cs = (cs, [])"
  by (induction cs) simp_all

lemma scanSlots_None_removed: "snd (scanSlots None mk i arrays) = []"
proof (induction arrays arbitrary: i)
  case Nil
  then show ?case by simp
next
  case (Cons slot rest)
  have "snd (scanSlots None mk (Suc i) rest) = []"
    by (rule Cons.IH)
  then show ?case
    by (simp add: scanSlot_None split_beta)
qed

lemma scanSlots_None_kept:
  "list_all (\<lambda>slot. slot \<noteq> []) arrays \<Longrightarrow> fst (scanSlots None mk i arrays) = arrays"
proof (induction arrays arbitrary: i)
  case Nil
  then show ?case by simp
next
  case (Cons slot rest)
  then have "fst (scanSlots None mk (Suc i) rest) = rest"
    by simp
  with Cons.prems show ?case
    by (simp add: scanSlot_None split_beta)
qed

lemma scanTypes_None_removed: "snd (scanTypes None mk byType) = []"
proof (induction byType)
  case Nil
  then show ?case by simp
next
  case (Cons entry rest)
  obtain ctype arrays where entry: "entry = (ctype, arrays)" by (cases entry)
  show ?case
    using Cons.IH scanSlots_None_removed [of "mk ctype" 0 arrays] entry
    by (simp add: split_beta)
qed

lemma scanTypes_None_kept:
  "list_all (\<lambda>(ctype, arrays). fullSlots arrays) byType \<Longrightarrow>
   fst (scanTypes None mk byType) = byType"
proof (induction byType)
  case Nil
  then show ?case by simp
next
  case (Cons entry rest)
  obtain ctype arrays where entry: "entry = (ctype, arrays)" by (cases entry)
  from Cons.prems entry have full: "fullSlots arrays"
    and rest: "list_all (\<lambda>(ctype, arrays). fullSlots arrays) rest"
    by simp_all
  from full have "fst (scanSlots None (mk ctype) 0 arrays) = arrays" "arrays \<noteq> []"
    by (simp_all add: fullSlots_def scanSlots_None_kept)
  with Cons.IH [OF rest] entry show ?case
    by (simp add: split_beta)
qed

lemma scanSources_None_removed: "snd (scanSources None mk conns) = []"
proof (induction conns)
  case Nil
  then show ?case by simp
next
  case (Cons entry rest)
  obtain sourceNodeName byType where entry: "entry = (sourceNodeName, byType)" by (cases entry)
  show ?case
    using Cons.IH scanTypes_None_removed [of "mk sourceNodeName" byType] entry
    by (simp add: split_beta)
qed

lemma scanSources_None_kept:
  "noEmptyLeaves conns \<Longrightarrow> fst (scanSources None mk conns) = conns"
proof (induction conns)
  case Nil
  then show ?case by simp
next
  case (Cons entry rest)
  obtain sourceNodeName byType where entry: "entry = (sourceNodeName, byType)" by (cases entry)
  from Cons.prems entry have full: "fullTypes byType" and rest: "noEmptyLeaves rest"
    by (simp_all add: noEmptyLeaves_def)
  from full have "fst (scanTypes None (mk sourceNodeName) byType) = byType" "byType \<noteq> []"
    by (simp_all add: fullTypes_def scanTypes_None_kept)
  with Cons.IH [OF rest] entry show ?case
    by (simp add: split_beta)
qed

lemma findIndex_Some: "findIndex P xs = Some j \<Longrightarrow> j < length xs \<and> P (xs ! j)"
proof (induction xs arbitrary: j)
  case Nil
  then show ?case by simp
next
  case (Cons x xs)
  then show ?case by (auto split: if_splits)
qed

lemma no_id_after_splice:
  assumes d: "distinct (map node_id ns)"
      and i: "findIndex (\<lambda>n. node_id n = nodeId) ns = Some i"
  shows "find (\<lambda>n. node_id n = nodeId) (splice1 i ns) = None"
proof -
  from findIndex_Some [OF i] have len: "i < length ns" and at: "node_id (ns ! i) = nodeId"
    by simp_all
  from len have "ns = take i ns @ ns ! i # drop (Suc i) ns"
    by (rule id_take_nth_drop)
  then have "map node_id ns
      = map node_id (take i ns) @ nodeId # map node_id (drop (Suc i) ns)"
    using at by (metis list.simps(9) map_append)
  with d have "distinct (map node_id (take i ns) @ nodeId # map node_id (drop (Suc i) ns))"
    by simp
  then have "nodeId \<notin> node_id ` set (take i ns)" "nodeId \<notin> node_id ` set (drop (Suc i) ns)"
    by auto
  then show ?thesis
    by (auto simp: find_None_iff splice1_def)
qed

text \<open>
  With unique node IDs the name lookup after the splice never finds the removed node, so
  the function reports no removed connection for any document, and on a table without
  empty leaves it leaves every connection in place.
\<close>

lemma removeNode_unique_ids_removes_nothing:
  assumes "distinct (map node_id (nodes workflow))"
  shows "fst (removeNodeFromWorkflow workflow nodeId) = []"
    and "noEmptyLeaves (connections workflow) \<Longrightarrow>
         connections (snd (removeNodeFromWorkflow workflow nodeId)) = connections workflow"
proof -
  show "fst (removeNodeFromWorkflow workflow nodeId) = []"
  proof (cases "findIndex (\<lambda>n. node_id n = nodeId) (nodes workflow)")
    case None
    then show ?thesis by (simp add: removeNodeFromWorkflow_def)
  next
    case (Some i)
    from no_id_after_splice [OF assms Some] Some show ?thesis
      by (simp add: removeNodeFromWorkflow_def findNodeById_def Let_def split_beta
            scanSources_None_removed)
  qed
  show "connections (snd (removeNodeFromWorkflow workflow nodeId)) = connections workflow"
    if "noEmptyLeaves (connections workflow)"
  proof (cases "findIndex (\<lambda>n. node_id n = nodeId) (nodes workflow)")
    case None
    then show ?thesis by (simp add: removeNodeFromWorkflow_def)
  next
    case (Some i)
    from no_id_after_splice [OF assms Some] Some that show ?thesis
      by (simp add: removeNodeFromWorkflow_def findNodeById_def Let_def split_beta
            scanSources_None_kept)
  qed
qed

section \<open>Update guard\<close>



section \<open>Safe update\<close>

text \<open>
  C4. When updateWorkflowSafely runs with validateIntegrity = true and the mutated buffer
  fails the integrity validation, the result is an error whose message lists all the
  errors the validator found, the only remote call made is the fetch, and the remote
  store is in the state the fetch left it in: no write happens.
\<close>

theorem integrity_failure_blocks_write:
  assumes "getWorkflow api workflowId s = (Inr currentWorkflow, s1)"
      and "workflowUpdater currentWorkflow = Inr workflowCopy"
      and "\<not> isValid (validateWorkflowIntegrity workflowCopy)"
  shows "updateWorkflowSafely api workflowId workflowUpdater True s =
           (Inl (N8nApiError (''Workflow integrity validation failed: ''
                   @ join '', '' (errors (validateWorkflowIntegrity workflowCopy)))),
            s1, [GetWorkflowCall workflowId])"
  using assms by (simp add: updateWorkflowSafely_def)

theorem integrity_failure_blocks_write_witness:
  "getWorkflow storeApi ''w1'' chainABC = (Inr chainABC, chainABC)
   \<and> \<not> isValid (validateWorkflowIntegrity (projr (danglingUpdater chainABC)))
   \<and> updateWorkflowSafely storeApi ''w1'' danglingUpdater True chainABC =
       (Inl (N8nApiError (''Workflow integrity validation failed: ''
               @ ''Connection target node '' @ quoted ''nowhere'' @ '' does not exist''
               @ '', ''
               @ ''Connection source node '' @ quoted ''ghost'' @ '' does not exist'')),
        chainABC, [GetWorkflowCall ''w1''])"
proof -
  have g: "getWorkflow storeApi ''w1'' chainABC = (Inr chainABC, chainABC)"
    by (simp add: storeApi_def)
  have u: "danglingUpdater chainABC = Inr (projr (danglingUpdater chainABC))"
    by (simp add: danglingUpdater_def)
  have e: "errors (validateWorkflowIntegrity (projr (danglingUpdater chainABC))) =
             [''Connection target node '' @ quoted ''nowhere'' @ '' does not exist'',
              ''Connection source node '' @ quoted ''ghost'' @ '' does not exist'']"
    by (simp add: danglingUpdater_def validateWorkflowIntegrity_def example_defs quoted_def)
  have v: "\<not> isValid (validateWorkflowIntegrity (projr (danglingUpdater chainABC)))"
    by (simp add: danglingUpdater_def validateWorkflowIntegrity_def example_defs quoted_def)
  from integrity_failure_blocks_write
         [where api = storeApi and workflowId = "''w1''" and s = chainABC
            and currentWorkflow = chainABC and ?s1.0 = chainABC
            and workflowUpdater = danglingUpdater
            and workflowCopy = "projr (danglingUpdater chainABC)", OF g u v] g v e
  show ?thesis
    by simp
qed

section \<open>Execution poller\<close>

lemma intervalMs_lower: "2000 \<le> intervalMs interval"
  by (cases interval) simp_all

lemma pollStart_lower: "2000 * n \<le> pollStart env n"
proof (induction n)
  case 0
  then show ?case by (simp add: pollStart_def)
next
  case (Suc n)
  obtain elapsed interval where s: "pollState env n = (elapsed, interval)"
    by (cases "pollState env n")
  let ?now = "elapsed + latency env n"
  let ?interval' = "if ?now > 90000 then Every10s else if ?now > 30000 then Every5s else interval"
  from Suc s have "2000 * n \<le> elapsed"
    by (simp add: pollStart_def)
  moreover have "2000 \<le> intervalMs ?interval'"
    by (rule intervalMs_lower)
  moreover have "pollStart env (Suc n) = ?now + intervalMs ?interval' + oversleep env n"
    using s by (simp add: pollStart_def Let_def)
  ultimately show ?case
    by simp
qed

lemma pollLoop_unfinished_window:
  assumes window: "\<forall>n. int (pollStart env n) < timeoutSeconds * 1000 \<longrightarrow>
                     (\<exists>ex. fetch env n = Inr ex
                           \<and> (ex_finished ex = None \<or> ex_finished ex = Some False))"
      and head: "pollState env pollCount = (elapsed, interval)"
  shows "pollLoop env executionId timeoutSeconds elapsed interval pollCount =
           Inr (timeoutResult executionId timeoutSeconds)"
  using assms
proof (induction env executionId timeoutSeconds elapsed interval pollCount rule: pollLoop.induct)
  case (1 env executionId timeoutSeconds elapsed interval pollCount)
  show ?case
  proof (cases "int elapsed < timeoutSeconds * 1000")
    case False
    then show ?thesis by (simp add: pollLoop.simps)
  next
    case True
    from "1.prems"(2) have start: "pollStart env pollCount = elapsed"
      by (simp add: pollStart_def)
    with True "1.prems"(1) obtain ex where ex: "fetch env pollCount = Inr ex"
      "ex_finished ex = None \<or> ex_finished ex = Some False"
      by blast
    let ?now = "elapsed + latency env pollCount"
    let ?interval' = "if ?now > 90000 then Every10s else if ?now > 30000 then Every5s else interval"
    have next_head: "pollState env (Suc pollCount)
                       = (?now + intervalMs ?interval' + oversleep env pollCount, ?interval')"
      using "1.prems"(2) by (simp add: Let_def)
    have "pollLoop env executionId timeoutSeconds
            (?now + intervalMs ?interval' + oversleep env pollCount) ?interval' (Suc pollCount)
          = Inr (timeoutResult executionId timeoutSeconds)"
      using True ex "1.prems"(1) next_head
      by (intro "1.IH") auto
    then show ?thesis
      using True ex
      by (subst pollLoop.simps) (auto simp: Let_def)
  qed
qed

text \<open>
  C8, as amended. Poller timeout. When every status fetch that the loop starts before the
  configured timeout has elapsed succeeds and reports no finished flag, the poll loop ends
  and returns, as a normal result, a record with status \<open>timeout\<close> whose duration is the
  configured timeout (in milliseconds, \<open>timeoutSeconds * 1000\<close>), whatever time has
  elapsed on the clock and whatever the execution would report later. That the loop ends
  for every environment is the termination proof of \<open>pollLoop\<close>.
\<close>

theorem poll_timeout:
  assumes "\<forall>n. int (pollStart env n) < timeoutSeconds * 1000 \<longrightarrow>
             (\<exists>ex. fetch env n = Inr ex
                   \<and> (ex_finished ex = None \<or> ex_finished ex = Some False))"
  shows "\<exists>r. pollExecutionCompletion env executionId timeoutSeconds = Inr r
             \<and> res_status r = ''timeout'' \<and> res_duration r = timeoutSeconds * 1000"
proof -
  have "pollLoop env executionId timeoutSeconds 0 Every2s 0 =
          Inr (timeoutResult executionId timeoutSeconds)"
    using assms by (rule pollLoop_unfinished_window) simp
  then show ?thesis
    by (simp add: pollExecutionCompletion_def timeoutResult_def)
qed

text \<open>
  C8 as stated fails where a status fetch that starts before the timeout is answered
  after it: with a timeout of 5 seconds, the first fetch starts at 0 ms and is answered
  at 6000 ms with the finished flag set, so no status reports the execution finished
  before the timeout elapses, and the loop returns the completed record with status
  \<open>success\<close> and the elapsed 6000 ms as duration, not a timeout.
\<close>

theorem poll_slow_answer_counterexample:
  "pollStart slowFinish 0 = 0
   \<and> \<not> int (pollStart slowFinish 0 + latency slowFinish 0) < 5 * 1000
   \<and> pollExecutionCompletion slowFinish ''e1'' 5 =
       Inr \<lparr>res_executionId = ''e1'', res_workflowId = Some ''w1'', res_status = ''success'',
            res_duration = 6000, res_error = None\<rparr>"
proof -
  have "pollLoop slowFinish ''e1'' 5 0 Every2s 0 =
          Inr (completedResult ''e1'' finishedExecution 6000)"
    by (subst pollLoop.simps) (simp add: slowFinish_def finishedExecution_def)
  then show ?thesis
    by (simp add: pollExecutionCompletion_def completedResult_def or_else_def pollStart_def
          slowFinish_def finishedExecution_def)
qed

theorem poll_timeout_witness:
  "fetch lateFinish 0 = Inr runningExecution
   \<and> fetch lateFinish 1 = Inr runningExecution
   \<and> fetch lateFinish 2 = Inr runningExecution
   \<and> fetch lateFinish 3 = Inr finishedExecution
   \<and> pollStart lateFinish 2 = 4314
   \<and> pollStart lateFinish 3 = 6471
   \<and> (\<exists>r. pollExecutionCompletion lateFinish ''e1'' 5 = Inr r
          \<and> res_status r = ''timeout'' \<and> res_duration r = 5000)"
proof -
  have h: "\<forall>n. int (pollStart lateFinish n) < 5 * 1000 \<longrightarrow>
             (\<exists>ex. fetch lateFinish n = Inr ex
                   \<and> (ex_finished ex = None \<or> ex_finished ex = Some False))"
  proof (intro allI impI)
    fix n
    assume "int (pollStart lateFinish n) < 5 * 1000"
    moreover have "2000 * n \<le> pollStart lateFinish n"
      by (rule pollStart_lower)
    ultimately have "n < 3"
      by linarith
    then show "\<exists>ex. fetch lateFinish n = Inr ex
                 \<and> (ex_finished ex = None \<or> ex_finished ex = Some False)"
      by (simp add: lateFinish_def runningExecution_def)
  qed
  have polls: "fetch lateFinish 0 = Inr runningExecution"
    "fetch lateFinish 1 = Inr runningExecution"
    "fetch lateFinish 2 = Inr runningExecution"
    "fetch lateFinish 3 = Inr finishedExecution"
    by (simp_all add: lateFinish_def)
  have starts: "pollStart lateFinish 2 = 4314" "pollStart lateFinish 3 = 6471"
    by (simp_all add: pollStart_def lateFinish_def numeral_2_eq_2 numeral_3_eq_3)
  from poll_timeout [OF h, of "''e1''"] polls starts show ?thesis
    by simp
qed

section \<open>Connection removal\<close>

lemma findIndex_single: "P e \<Longrightarrow> findIndex P [e] = Some 0"
  by simp

lemma splice1_length: "i < length xs \<Longrightarrow> length (splice1 i xs) = length xs - 1"
  by (simp add: splice1_def)

lemma splice1_nth_below: "k < i \<Longrightarrow> i < length xs \<Longrightarrow> splice1 i xs ! k = xs ! k"
  by (simp add: splice1_def nth_append)

lemma splice1_nth_above:
  "i < k \<Longrightarrow> k < length xs \<Longrightarrow> splice1 i xs ! (k - Suc 0) = xs ! k"
  by (auto simp add: splice1_def nth_append min_def)

text \<open>
  C10. Where the addressed source and type hold at least two output slots and slot \<open>s\<close>
  holds exactly the edge to remove, removeConnectionFromWorkflow returns true and splices
  slot \<open>s\<close> out of the slot list: the list is one shorter, the edges formerly in a slot
  with index \<open>k > s\<close> are afterwards read at index \<open>k - 1\<close>, and the slots below \<open>s\<close>
  keep their index.
\<close>

theorem removeConnection_shifts_slots:
  assumes src: "getNodeNameById workflow (sourceNodeId spec) = Some sourceNodeName"
              "sourceNodeName \<noteq> []"
      and tgt: "getNodeNameById workflow (targetNodeId spec) = Some targetNodeName"
              "targetNodeName \<noteq> []"
      and byType: "map_of (connections workflow) sourceNodeName = Some byType"
      and arrays: "map_of byType (connectionTypeOf spec) = Some arrays"
      and two: "2 \<le> length arrays"
      and s: "0 \<le> sourceIndexOf spec" "nat (sourceIndexOf spec) < length arrays"
      and slot: "arrays ! nat (sourceIndexOf spec) = [e]"
      and e: "sameEdge targetNodeName (targetIndexOf spec) (connectionTypeOf spec) e"
  shows "\<exists>workflow'.
           removeConnectionFromWorkflow workflow spec = (True, workflow')
         \<and> slotsAt (connections workflow') sourceNodeName (connectionTypeOf spec)
             = splice1 (nat (sourceIndexOf spec)) arrays
         \<and> length (slotsAt (connections workflow') sourceNodeName (connectionTypeOf spec))
             = length arrays - 1
         \<and> (\<forall>k. nat (sourceIndexOf spec) < k \<and> k < length arrays \<longrightarrow>
                edgesAt (connections workflow') sourceNodeName (connectionTypeOf spec) (k - 1)
                  = edgesAt (connections workflow) sourceNodeName (connectionTypeOf spec) k)
         \<and> (\<forall>k. k < nat (sourceIndexOf spec) \<longrightarrow>
                edgesAt (connections workflow') sourceNodeName (connectionTypeOf spec) k
                  = edgesAt (connections workflow) sourceNodeName (connectionTypeOf spec) k)"
proof -
  let ?s = "nat (sourceIndexOf spec)"
  let ?ct = "connectionTypeOf spec"
  let ?conns' = "AList.update sourceNodeName
                   (AList.update ?ct (splice1 ?s arrays) byType) (connections workflow)"
  have len: "length (splice1 ?s arrays) = length arrays - 1"
    using s by (simp add: splice1_length)
  have nonempty: "length (splice1 ?s arrays) \<noteq> 0"
    using len two by simp
  have run: "removeConnectionFromWorkflow workflow spec
               = (True, workflow\<lparr>connections := ?conns'\<rparr>)"
    using src tgt byType arrays s slot e nonempty
    by (simp add: removeConnectionFromWorkflow_def removeEdgeAt_def Let_def splice1_def [of 0])
  have before: "slotsAt (connections workflow) sourceNodeName ?ct = arrays"
    using byType arrays by (simp add: slotsAt_def)
  have after: "slotsAt ?conns' sourceNodeName ?ct = splice1 ?s arrays"
    by (simp add: slotsAt_def update_conv')
  have above: "edgesAt ?conns' sourceNodeName ?ct (k - 1)
                 = edgesAt (connections workflow) sourceNodeName ?ct k"
    if "?s < k" "k < length arrays" for k
  proof -
    from that have "k - Suc 0 < length arrays - Suc 0"
      by linarith
    with that len show ?thesis
      by (simp add: edgesAt_def before after splice1_nth_above)
  qed
  have below: "edgesAt ?conns' sourceNodeName ?ct k
                 = edgesAt (connections workflow) sourceNodeName ?ct k"
    if "k < ?s" for k
  proof -
    from that s have "k < length arrays - Suc 0" "k < length arrays"
      by linarith+
    with that s len show ?thesis
      by (simp add: edgesAt_def before after splice1_nth_below)
  qed
  show ?thesis
  proof (intro exI conjI allI impI)
    show "removeConnectionFromWorkflow workflow spec = (True, workflow\<lparr>connections := ?conns'\<rparr>)"
      by (rule run)
    show "slotsAt (connections (workflow\<lparr>connections := ?conns'\<rparr>)) sourceNodeName ?ct
            = splice1 ?s arrays"
      using after by simp
    show "length (slotsAt (connections (workflow\<lparr>connections := ?conns'\<rparr>)) sourceNodeName ?ct)
            = length arrays - 1"
      using after len by simp
  next
    fix k
    assume "?s < k \<and> k < length arrays"
    then show "edgesAt (connections (workflow\<lparr>connections := ?conns'\<rparr>)) sourceNodeName ?ct (k - 1)
            = edgesAt (connections workflow) sourceNodeName ?ct k"
      using above [of k] by simp
  next
    fix k
    assume "k < ?s"
    then show "edgesAt (connections (workflow\<lparr>connections := ?conns'\<rparr>)) sourceNodeName ?ct k
            = edgesAt (connections workflow) sourceNodeName ?ct k"
      using below [of k] by simp
  qed
qed

theorem removeConnection_shifts_slots_witness:
  "edgesAt (connections twoSlots) ''A'' ''main'' 1 = [mkEdge ''C'']
   \<and> removeConnectionFromWorkflow twoSlots (mkSpec ''A'' ''B'' 0) =
       (True, mkWorkflow [mkNode ''A'' ''A'', mkNode ''B'' ''B'', mkNode ''C'' ''C'']
          [(''A'', [(''main'', [[mkEdge ''C'']])])])
   \<and> (\<exists>workflow'. removeConnectionFromWorkflow twoSlots (mkSpec ''A'' ''B'' 0) = (True, workflow')
         \<and> edgesAt (connections workflow') ''A'' ''main'' 0 = [mkEdge ''C''])"
proof -
  let ?spec = "mkSpec ''A'' ''B'' 0"
  let ?arrays = "[[mkEdge ''B''], [mkEdge ''C'']]"
  have src: "getNodeNameById twoSlots (sourceNodeId ?spec) = Some ''A''" "''A'' \<noteq> []"
    and tgt: "getNodeNameById twoSlots (targetNodeId ?spec) = Some ''B''" "''B'' \<noteq> []"
    by (simp_all add: getNodeNameById_def findNodeById_def twoSlots_def example_defs)
  have byType: "map_of (connections twoSlots) ''A'' = Some [(''main'', ?arrays)]"
    by (simp add: twoSlots_def example_defs)
  have arrays: "map_of [(''main'', ?arrays)] (connectionTypeOf ?spec) = Some ?arrays"
    by (simp add: connectionTypeOf_def example_defs)
  have two: "2 \<le> length ?arrays"
    by simp
  have s: "0 \<le> sourceIndexOf ?spec" "nat (sourceIndexOf ?spec) < length ?arrays"
    by (simp_all add: sourceIndexOf_def example_defs)
  have slot: "?arrays ! nat (sourceIndexOf ?spec) = [mkEdge ''B'']"
    by (simp add: sourceIndexOf_def example_defs)
  have e: "sameEdge ''B'' (targetIndexOf ?spec) (connectionTypeOf ?spec) (mkEdge ''B'')"
    by (simp add: sameEdge_def targetIndexOf_def connectionTypeOf_def example_defs)
  have params: "connectionTypeOf ?spec = ''main''" "nat (sourceIndexOf ?spec) = 0"
    by (simp_all add: connectionTypeOf_def sourceIndexOf_def example_defs)
  have before: "edgesAt (connections twoSlots) ''A'' ''main'' 1 = [mkEdge ''C'']"
    by (simp add: edgesAt_def slotsAt_def twoSlots_def example_defs)
  have run: "removeConnectionFromWorkflow twoSlots ?spec =
       (True, mkWorkflow [mkNode ''A'' ''A'', mkNode ''B'' ''B'', mkNode ''C'' ''C'']
          [(''A'', [(''main'', [[mkEdge ''C'']])])])"
    by (simp add: removeConnectionFromWorkflow_def removeEdgeAt_def getNodeNameById_def
          findNodeById_def sameEdge_def splice1_def sourceIndexOf_def targetIndexOf_def
          connectionTypeOf_def twoSlots_def example_defs Let_def)
  from removeConnection_shifts_slots [OF src tgt byType arrays two s slot e]
  obtain workflow' where
    w: "removeConnectionFromWorkflow twoSlots ?spec = (True, workflow')"
    and shift: "\<forall>k. nat (sourceIndexOf ?spec) < k \<and> k < length ?arrays \<longrightarrow>
                edgesAt (connections workflow') ''A'' (connectionTypeOf ?spec) (k - 1)
                  = edgesAt (connections twoSlots) ''A'' (connectionTypeOf ?spec) k"
    by blast
  from shift have "edgesAt (connections workflow') ''A'' ''main'' (1 - 1)
                     = edgesAt (connections twoSlots) ''A'' ''main'' 1"
    unfolding params by simp
  with before have "edgesAt (connections workflow') ''A'' ''main'' 0 = [mkEdge ''C'']"
    by simp
  with w before run show ?thesis
    by blast
qed

section \<open>Merge mode\<close>

lemma mergeNodes_loop_length: "length merged \<le> length (mergeNodes_loop merged ids new)"
proof (induction new arbitrary: merged ids)
  case Nil
  then show ?case by simp
next
  case (Cons n new)
  have a: "length merged \<le> length (mergeNodes_loop (merged @ [n]) ids' new)" for ids'
    using Cons.IH [of "merged @ [n]" ids'] by simp
  have b: "length merged \<le> length (mergeNodes_loop (merged[j := v]) ids new)" for j v
    using Cons.IH [of "merged[j := v]" ids] by simp
  show ?case
    using a b Cons.IH [of merged ids] by (simp split: option.splits)
qed

lemma mergeNodes_loop_untouched:
  assumes "i < length merged"
      and "\<forall>n \<in> set new. truthyId n \<longrightarrow> idOf n \<noteq> idOf (merged ! i)"
  shows "mergeNodes_loop merged ids new ! i = merged ! i"
  using assms
proof (induction new arbitrary: merged ids)
  case Nil
  then show ?case by simp
next
  case (Cons n new)
  show ?case
  proof (cases "truthyId n \<and> idOf n \<in> ids")
    case False
    have "mergeNodes_loop (merged @ [n]) ids' new ! i = (merged @ [n]) ! i" for ids'
      using Cons.prems by (intro Cons.IH) (simp_all add: nth_append)
    with False Cons.prems show ?thesis
      by (auto simp: nth_append)
  next
    case True
    show ?thesis
    proof (cases "findIndex (\<lambda>m. idOf m = idOf n) merged")
      case None
      with True Cons show ?thesis by simp
    next
      case (Some j)
      from findIndex_Some [OF Some] have j: "j < length merged" "idOf (merged ! j) = idOf n"
        by simp_all
      with True Cons.prems have "j \<noteq> i" by auto
      then have same: "merged[j := spread (merged ! j) n] ! i = merged ! i"
        by simp
      have "mergeNodes_loop (merged[j := spread (merged ! j) n]) ids new ! i
              = merged[j := spread (merged ! j) n] ! i"
        using Cons.prems same by (intro Cons.IH) simp_all
      with True Some same show ?thesis by simp
    qed
  qed
qed

lemma map_of_mergeConnections_other:
  "k \<notin> fst ` set newConnections \<Longrightarrow>
   map_of (mergeConnections merged newConnections) k = map_of merged k"
proof (induction newConnections arbitrary: merged)
  case Nil
  then show ?case by simp
next
  case (Cons entry rest)
  obtain sourceNode conns where entry: "entry = (sourceNode, conns)"
    by (cases entry)
  with Cons.prems have ne: "k \<noteq> sourceNode" and rest: "k \<notin> fst ` set rest"
    by auto
  show ?case
    using ne Cons.IH [OF rest] entry
    by (simp add: update_conv' split: option.splits)
qed

lemma map_of_spread:
  "distinct (map fst b) \<Longrightarrow>
   map_of (spread a b) k = (case map_of b k of Some v \<Rightarrow> Some v | None \<Rightarrow> map_of a k)"
  unfolding spread_def
proof (induction b arbitrary: a)
  case Nil
  then show ?case by simp
next
  case (Cons entry rest)
  obtain k0 v0 where entry: "entry = (k0, v0)" by (cases entry)
  with Cons.prems have notin: "k0 \<notin> fst ` set rest" and d: "distinct (map fst rest)"
    by auto
  from notin have none: "map_of rest k0 = None"
    by (simp add: map_of_eq_None_iff)
  show ?case
    using Cons.IH [OF d, of "AList.update k0 v0 a"] entry none
    by (auto simp: update_conv' split: option.splits)
qed

lemma mergeNodes_loop_ids:
  assumes "i < length merged"
      and "\<forall>n \<in> set new. distinct (map fst n)"
  shows "idOf (mergeNodes_loop merged ids new ! i) = idOf (merged ! i)"
  using assms
proof (induction new arbitrary: merged ids)
  case Nil
  then show ?case by simp
next
  case (Cons n new)
  from Cons.prems have dn: "distinct (map fst n)" and dnew: "\<forall>n \<in> set new. distinct (map fst n)"
    by simp_all
  show ?case
  proof (cases "truthyId n \<and> idOf n \<in> ids")
    case False
    have "idOf (mergeNodes_loop (merged @ [n]) ids' new ! i) = idOf ((merged @ [n]) ! i)" for ids'
      using Cons.prems(1) dnew by (intro Cons.IH) simp_all
    with False Cons.prems(1) show ?thesis
      by (auto simp: nth_append)
  next
    case True
    show ?thesis
    proof (cases "findIndex (\<lambda>m. idOf m = idOf n) merged")
      case None
      with True Cons.IH [OF Cons.prems(1) dnew] show ?thesis by simp
    next
      case (Some j)
      from findIndex_Some [OF Some] have j: "j < length merged" "idOf (merged ! j) = idOf n"
        by simp_all
      from True obtain v where v: "idOf n = Some v"
        by (auto simp: truthyId_def split: option.splits)
      then have "idOf (spread (merged ! j) n) = idOf n"
        using map_of_spread [OF dn, of "merged ! j" "''id''"] by (simp add: idOf_def)
      with j have same: "idOf (merged[j := spread (merged ! j) n] ! i) = idOf (merged ! i)"
        using Cons.prems(1) by (cases "i = j") simp_all
      have "idOf (mergeNodes_loop (merged[j := spread (merged ! j) n]) ids new ! i)
              = idOf (merged[j := spread (merged ! j) n] ! i)"
        using Cons.prems(1) dnew by (intro Cons.IH) simp_all
      with True Some same show ?thesis by simp
    qed
  qed
qed

text \<open>
  C5. A merge-mode update never loses a node: the merged node list is at least as long as the
  current one, and a current node keeps its position and is unchanged unless the update holds a
  node with the same (truthy) ID; where the update's nodes are objects (no property twice),
  every current node also keeps its ID. Every connections source entry that the update does
  not mention reads after the merge exactly as before.
\<close>

theorem merge_preserves_untouched:
  "length currentNodes \<le> length (mergeNodes currentNodes newNodes)
   \<and> (\<forall>i < length currentNodes.
         (\<forall>n \<in> set newNodes. truthyId n \<longrightarrow> idOf n \<noteq> idOf (currentNodes ! i)) \<longrightarrow>
         mergeNodes currentNodes newNodes ! i = currentNodes ! i)
   \<and> ((\<forall>n \<in> set newNodes. distinct (map fst n)) \<longrightarrow>
        (\<forall>i < length currentNodes.
           idOf (mergeNodes currentNodes newNodes ! i) = idOf (currentNodes ! i)))
   \<and> (\<forall>sourceNode. sourceNode \<notin> fst ` set newConnections \<longrightarrow>
         map_of (mergeConnections currentConnections newConnections) sourceNode
           = map_of currentConnections sourceNode)"
  by (simp add: mergeNodes_def mergeNodes_loop_length mergeNodes_loop_untouched
        mergeNodes_loop_ids map_of_mergeConnections_other)

theorem merge_preserves_untouched_witness:
  "length (current_nodes currentXY)
     \<le> length (mergeNodes (current_nodes currentXY) (the (upd_nodes updateX)))
   \<and> mergeNodes (current_nodes currentXY) (the (upd_nodes updateX)) ! 1
       = current_nodes currentXY ! 1
   \<and> map_of (mergeConnections (current_connections currentXY) (the (upd_connections updateX))) ''Y''
       = Some [(''main'', [[mkEdge ''X'']])]
   \<and> idOf (mergeNodes (current_nodes currentXY) (the (upd_nodes updateX)) ! 0)
       = idOf (current_nodes currentXY ! 0)
   \<and> mergeNodes (current_nodes currentXY) (the (upd_nodes updateX))
       = [[(''id'', ''X''), (''name'', ''renamed'')], [(''id'', ''Y''), (''name'', ''Y'')],
          [(''id'', ''Z'')]]"
proof -
  have objects: "\<forall>n \<in> set (the (upd_nodes updateX)). distinct (map fst n)"
    by (simp add: updateX_def)
  have zero: "0 < length (current_nodes currentXY)"
    by (simp add: currentXY_def)
  have i: "1 < length (current_nodes currentXY)"
    by (simp add: currentXY_def)
  have untouched: "\<forall>n \<in> set (the (upd_nodes updateX)).
                     truthyId n \<longrightarrow> idOf n \<noteq> idOf (current_nodes currentXY ! 1)"
    by (simp add: currentXY_def updateX_def idOf_def)
  have notin: "''Y'' \<notin> fst ` set (the (upd_connections updateX))"
    by (simp add: updateX_def)
  have all: "mergeNodes (current_nodes currentXY) (the (upd_nodes updateX))
       = [[(''id'', ''X''), (''name'', ''renamed'')], [(''id'', ''Y''), (''name'', ''Y'')],
          [(''id'', ''Z'')]]"
    by (simp add: mergeNodes_def currentXY_def updateX_def idOf_def truthyId_def spread_def)
  from merge_preserves_untouched
         [of "current_nodes currentXY" "the (upd_nodes updateX)"
             "the (upd_connections updateX)" "current_connections currentXY"]
       i zero objects untouched notin all
  show ?thesis
    by (simp add: currentXY_def idOf_def)
qed

section \<open>Repair of corrupted connection keys\<close>

lemma find_name_exists:
  "n \<in> set ns \<Longrightarrow> find (\<lambda>m. node_name m = node_name n) ns \<noteq> None"
  by (induction ns) auto

lemma find_Some_mem: "find P xs = Some x \<Longrightarrow> x \<in> set xs \<and> P x"
  by (induction xs) (auto split: if_splits)

lemma name_of_found_not_corrupted:
  assumes "findNodeById workflow k = Some n"
  shows "\<not> isCorruptedKey workflow (node_name n)"
proof -
  from assms have "n \<in> set (nodes workflow)"
    by (auto simp: findNodeById_def dest: find_Some_mem)
  then show ?thesis
    by (simp add: isCorruptedKey_def findNodeByName_def find_name_exists)
qed

lemma connectionsToFix_old_keys:
  "fst ` set (connectionsToFix workflow conns)
     = {k \<in> fst ` set conns. isCorruptedKey workflow k}"
proof (induction conns)
  case Nil
  then show ?case by simp
next
  case (Cons entry conns)
  obtain k c where entry: "entry = (k, c)" by (cases entry)
  show ?case
    using Cons.IH entry
    by (auto simp: isCorruptedKey_def split: option.splits)
qed

lemma connectionsToFix_new_keys:
  "(old, new, c) \<in> set (connectionsToFix workflow conns) \<Longrightarrow> \<not> isCorruptedKey workflow new"
proof (induction conns)
  case Nil
  then show ?case by simp
next
  case (Cons entry conns)
  obtain k c' where entry: "entry = (k, c')" by (cases entry)
  show ?case
    using Cons entry
    by (auto simp: name_of_found_not_corrupted split: option.splits)
qed

lemma connectionsToFix_none:
  "\<forall>k \<in> fst ` set conns. \<not> isCorruptedKey workflow k \<Longrightarrow> connectionsToFix workflow conns = []"
proof (induction conns)
  case Nil
  then show ?case by simp
next
  case (Cons entry conns)
  obtain k c where entry: "entry = (k, c)" by (cases entry)
  show ?case
    using Cons entry
    by (auto simp: isCorruptedKey_def split: option.splits)
qed

lemma connectionsToFix_nodes:
  "nodes w = nodes w' \<Longrightarrow> connectionsToFix w conns = connectionsToFix w' conns"
  by (induction conns) (auto simp: findNodeById_def findNodeByName_def split: option.splits)

lemma dom_delete_eq: "fst ` set (AList.delete k al) = fst ` set al - {k}"
proof -
  have "set (map fst (AList.delete k al)) = set (removeAll k (map fst al))"
    by (simp add: delete_keys)
  then show ?thesis by simp
qed

lemma applyFixes_keys_clean:
  assumes "\<forall>k \<in> fst ` set conns. isCorruptedKey workflow k \<longrightarrow> k \<in> fst ` set todo"
      and "\<forall>(old, new, c) \<in> set todo. \<not> isCorruptedKey workflow new"
  shows "\<forall>k \<in> fst ` set (snd (applyFixes todo conns fixedCount)). \<not> isCorruptedKey workflow k"
  using assms
proof (induction todo arbitrary: conns fixedCount)
  case Nil
  then show ?case by auto
next
  case (Cons f rest)
  obtain oldKey newKey fixConns where f: "f = (oldKey, newKey, fixConns)"
    by (cases f)
  from Cons.prems(2) f have new: "\<not> isCorruptedKey workflow newKey"
    and rest: "\<forall>(old, new, c) \<in> set rest. \<not> isCorruptedKey workflow new"
    by auto
  have step: "\<forall>k \<in> fst ` set (AList.update newKey v (AList.delete oldKey conns)).
                isCorruptedKey workflow k \<longrightarrow> k \<in> fst ` set rest" for v
    using Cons.prems(1) new f
  proof (intro ballI impI)
    fix k
    assume k: "k \<in> fst ` set (AList.update newKey v (AList.delete oldKey conns))"
      and bad: "isCorruptedKey workflow k"
    have "fst ` set (AList.update newKey v (AList.delete oldKey conns))
            = insert newKey (fst ` set conns - {oldKey})"
      by (simp add: dom_update dom_delete_eq)
    with k bad new have k': "k \<in> fst ` set conns" "k \<noteq> oldKey"
      by auto
    from Cons.prems(1) k'(1)
    have "isCorruptedKey workflow k \<longrightarrow> k \<in> fst ` set (f # rest)"
      by (rule bspec)
    with bad have "k \<in> fst ` set (f # rest)"
      by (rule rev_mp)
    with k'(2) f show "k \<in> fst ` set rest"
      by simp
  qed
  show ?case
    using Cons.IH [OF step rest] f
    by (simp add: Let_def split: option.splits)
qed

text \<open>
  C7. Idempotence of the repair: running cleanupCorruptedConnections on its own output
  returns 0 and leaves the document as the first run left it.
\<close>

theorem cleanup_idempotent:
  "cleanupCorruptedConnections (snd (cleanupCorruptedConnections workflow))
     = (0, snd (cleanupCorruptedConnections workflow))"
proof -
  obtain fixedCount conns where
    run: "applyFixes (connectionsToFix workflow (connections workflow)) (connections workflow) 0
            = (fixedCount, conns)"
    by (cases "applyFixes (connectionsToFix workflow (connections workflow)) (connections workflow) 0")
  let ?w = "workflow\<lparr>connections := conns\<rparr>"
  have first: "snd (cleanupCorruptedConnections workflow) = ?w"
    using run by (simp add: cleanupCorruptedConnections_def)
  have "\<forall>k \<in> fst ` set (snd (applyFixes (connectionsToFix workflow (connections workflow))
                                   (connections workflow) 0)). \<not> isCorruptedKey workflow k"
    by (rule applyFixes_keys_clean)
       (auto simp: connectionsToFix_old_keys dest: connectionsToFix_new_keys)
  with run have clean: "\<forall>k \<in> fst ` set conns. \<not> isCorruptedKey workflow k"
    by simp
  have "connectionsToFix ?w conns = connectionsToFix workflow conns"
    by (rule connectionsToFix_nodes) simp
  also have "\<dots> = []"
    using clean by (rule connectionsToFix_none)
  finally have "cleanupCorruptedConnections ?w = (0, ?w)"
    by (simp add: cleanupCorruptedConnections_def)
  with first show ?thesis by simp
qed

theorem cleanup_idempotent_witness:
  "cleanupCorruptedConnections corruptedDoc =
     (1, corruptedDoc\<lparr>connections :=
           [(''Start'', [(''main'',
              [[\<lparr>conn_node = ''HTTP'', conn_type = ''main'', conn_index = 1\<rparr>, mkEdge ''HTTP'']])])]\<rparr>)
   \<and> cleanupCorruptedConnections (snd (cleanupCorruptedConnections corruptedDoc))
       = (0, snd (cleanupCorruptedConnections corruptedDoc))"
proof -
  have "cleanupCorruptedConnections corruptedDoc =
     (1, corruptedDoc\<lparr>connections :=
           [(''Start'', [(''main'',
              [[\<lparr>conn_node = ''HTTP'', conn_type = ''main'', conn_index = 1\<rparr>, mkEdge ''HTTP'']])])]\<rparr>)"
    by (simp add: cleanupCorruptedConnections_def corruptedDoc_def example_defs
          findNodeById_def findNodeByName_def)
  with cleanup_idempotent [of corruptedDoc] show ?thesis
    by simp
qed

section \<open>Adding a connection\<close>

lemma padSlots_closed:
  "padSlots arrays srcIdx = arrays @ replicate (nat (srcIdx + 1) - length arrays) []"
proof (induction arrays srcIdx rule: padSlots.induct)
  case (1 arrays srcIdx)
  show ?case
  proof (cases "int (length arrays) \<le> srcIdx")
    case False
    then show ?thesis by (simp add: padSlots.simps)
  next
    case True
    then have n: "nat (srcIdx + 1) - length arrays = Suc (nat (srcIdx + 1) - Suc (length arrays))"
      by linarith
    have "padSlots arrays srcIdx = padSlots (arrays @ [[]]) srcIdx"
      using True by (simp add: padSlots.simps [of arrays])
    also have "\<dots> = (arrays @ [[]]) @ replicate (nat (srcIdx + 1) - length (arrays @ [[]])) []"
      using True by (rule "1.IH")
    also have "\<dots> = arrays @ replicate (nat (srcIdx + 1) - length arrays) []"
      by (simp add: n)
    finally show ?thesis .
  qed
qed

lemma padSlots_length: "0 \<le> srcIdx \<Longrightarrow> nat srcIdx < length (padSlots arrays srcIdx)"
  by (simp add: padSlots_closed)

lemma padSlots_id: "srcIdx < int (length arrays) \<Longrightarrow> padSlots arrays srcIdx = arrays"
  by (simp add: padSlots.simps)

lemma validateNodesExist_pair:
  "isValid (validateNodesExist workflow [a, b])
     \<longleftrightarrow> findNodeById workflow a \<noteq> None \<and> findNodeById workflow b \<noteq> None"
  by (auto simp: validateNodesExist_def validateNodeExists_def Let_def split: option.splits)

lemma find_snoc: "P new \<Longrightarrow> find P (xs @ [new]) \<noteq> None"
  by (induction xs) auto

lemma find_pushed:
  "P new \<Longrightarrow>
   find P (case find P xs of None \<Rightarrow> xs @ [new] | Some existing \<Rightarrow> xs) \<noteq> None"
  by (cases "find P xs") (simp_all add: find_snoc)

lemma find_None_filter: "find P xs = None \<longleftrightarrow> filter P xs = []"
  by (induction xs) auto

lemma slotsAt_update:
  "slotsAt (AList.update sourceNodeName (AList.update ctype arrays byType) conns) sourceNodeName ctype
     = arrays"
  by (simp add: slotsAt_def update_conv')

lemma addEdge_slotsAt:
  "slotsAt (addEdge conns sourceNodeName targetNodeName srcIdx tgtIdx ctype) sourceNodeName ctype
     = (padSlots (slotsAt conns sourceNodeName ctype) srcIdx)
         [nat srcIdx :=
            (case find (sameEdge targetNodeName tgtIdx ctype)
                    (padSlots (slotsAt conns sourceNodeName ctype) srcIdx ! nat srcIdx) of
               None \<Rightarrow> padSlots (slotsAt conns sourceNodeName ctype) srcIdx ! nat srcIdx @
                 [\<lparr>conn_node = targetNodeName, conn_type = ctype, conn_index = tgtIdx\<rparr>]
             | Some existingConnection \<Rightarrow>
                 padSlots (slotsAt conns sourceNodeName ctype) srcIdx ! nat srcIdx)]"
  by (simp add: addEdge_def Let_def slotsAt_def update_conv' split: option.splits)

lemma addEdge_idem:
  assumes "0 \<le> srcIdx"
  shows "addEdge (addEdge conns sourceNodeName targetNodeName srcIdx tgtIdx ctype)
           sourceNodeName targetNodeName srcIdx tgtIdx ctype
         = addEdge conns sourceNodeName targetNodeName srcIdx tgtIdx ctype"
proof -
  define byType where "byType = (case map_of conns sourceNodeName of None \<Rightarrow> [] | Some m \<Rightarrow> m)"
  define arrays where
    "arrays = padSlots (case map_of byType ctype of None \<Rightarrow> [] | Some a \<Rightarrow> a) srcIdx"
  define new where
    "new = \<lparr>conn_node = targetNodeName, conn_type = ctype, conn_index = tgtIdx\<rparr>"
  define slot' where
    "slot' = (case find (sameEdge targetNodeName tgtIdx ctype) (arrays ! nat srcIdx) of
                None \<Rightarrow> arrays ! nat srcIdx @ [new] | Some existing \<Rightarrow> arrays ! nat srcIdx)"
  define arrays1 where "arrays1 = arrays[nat srcIdx := slot']"
  define byType1 where "byType1 = AList.update ctype arrays1 byType"
  define conns1 where "conns1 = AList.update sourceNodeName byType1 conns"
  have first: "addEdge conns sourceNodeName targetNodeName srcIdx tgtIdx ctype = conns1"
    unfolding addEdge_def Let_def conns1_def byType1_def arrays1_def slot'_def new_def
      arrays_def byType_def ..
  have len: "nat srcIdx < length arrays"
    using assms by (simp add: arrays_def padSlots_length)
  then have len1: "srcIdx < int (length arrays1)"
    using assms by (simp add: arrays1_def)
  have "sameEdge targetNodeName tgtIdx ctype new"
    by (simp add: sameEdge_def new_def)
  then have found: "find (sameEdge targetNodeName tgtIdx ctype) slot' \<noteq> None"
    unfolding slot'_def by (rule find_pushed)
  have look1: "map_of conns1 sourceNodeName = Some byType1"
    by (simp add: conns1_def update_conv')
  have look2: "map_of byType1 ctype = Some arrays1"
    by (simp add: byType1_def update_conv')
  have slot1: "arrays1 ! nat srcIdx = slot'"
    using len by (simp add: arrays1_def)
  have "addEdge conns1 sourceNodeName targetNodeName srcIdx tgtIdx ctype
          = AList.update sourceNodeName (AList.update ctype (arrays1[nat srcIdx := slot']) byType1) conns1"
    using found
    by (auto simp add: addEdge_def Let_def look1 look2 padSlots_id [OF len1] slot1)
  also have "arrays1[nat srcIdx := slot'] = arrays1"
    by (simp add: arrays1_def)
  also have "AList.update ctype arrays1 byType1 = byType1"
    by (simp add: byType1_def)
  also have "AList.update sourceNodeName byType1 conns1 = conns1"
    by (simp add: conns1_def)
  finally show ?thesis
    using first by simp
qed

lemma addEdge_count:
  assumes "0 \<le> srcIdx"
  shows "length (filter (sameEdge targetNodeName tgtIdx ctype)
            (edgesAt (addEdge conns sourceNodeName targetNodeName srcIdx tgtIdx ctype)
               sourceNodeName ctype (nat srcIdx)))
         = max 1 (length (filter (sameEdge targetNodeName tgtIdx ctype)
                     (edgesAt conns sourceNodeName ctype (nat srcIdx))))"
proof -
  let ?P = "sameEdge targetNodeName tgtIdx ctype"
  let ?old = "slotsAt conns sourceNodeName ctype"
  let ?new = "\<lparr>conn_node = targetNodeName, conn_type = ctype, conn_index = tgtIdx\<rparr>"
  have len: "nat srcIdx < length (padSlots ?old srcIdx)"
    using assms by (rule padSlots_length)
  have P: "?P ?new"
    by (simp add: sameEdge_def)
  have slot: "padSlots ?old srcIdx ! nat srcIdx = edgesAt conns sourceNodeName ctype (nat srcIdx)"
    using assms by (auto simp: padSlots_closed edgesAt_def nth_append)
  show ?thesis
  proof (cases "find ?P (edgesAt conns sourceNodeName ctype (nat srcIdx))")
    case None
    then have "filter ?P (edgesAt conns sourceNodeName ctype (nat srcIdx)) = []"
      by (simp add: find_None_filter)
    with None len slot P show ?thesis
      by (simp add: edgesAt_def addEdge_slotsAt)
  next
    case (Some e)
    then have "filter ?P (edgesAt conns sourceNodeName ctype (nat srcIdx)) \<noteq> []"
      using find_None_filter [of ?P "edgesAt conns sourceNodeName ctype (nat srcIdx)"] by simp
    then have "1 \<le> length (filter ?P (edgesAt conns sourceNodeName ctype (nat srcIdx)))"
      by (cases "filter ?P (edgesAt conns sourceNodeName ctype (nat srcIdx))") simp_all
    with Some len slot show ?thesis
      by (simp add: edgesAt_def addEdge_slotsAt max_def)
  qed
qed

text \<open>
  C6, as amended. Where both node IDs resolve to non-empty names and the source index is
  not negative, addConnectionToWorkflow returns true, a second call with the same
  ConnectionSpec returns true again and leaves the document as the first call left it,
  and the addressed slot then holds exactly one edge with that target name, target index
  and type, unless it held several before the first call (it holds as many as before, and
  at least one).
\<close>

theorem addConnection_idempotent:
  assumes src: "getNodeNameById workflow (sourceNodeId spec) = Some sourceNodeName"
               "sourceNodeName \<noteq> []"
      and tgt: "getNodeNameById workflow (targetNodeId spec) = Some targetNodeName"
               "targetNodeName \<noteq> []"
      and idx: "0 \<le> sourceIndexOf spec"
  shows "\<exists>workflow1.
           addConnectionToWorkflow workflow spec = Inr (True, workflow1)
         \<and> addConnectionToWorkflow workflow1 spec = Inr (True, workflow1)
         \<and> length (filter (sameEdge targetNodeName (targetIndexOf spec) (connectionTypeOf spec))
              (edgesAt (connections workflow1) sourceNodeName (connectionTypeOf spec)
                 (nat (sourceIndexOf spec))))
           = max 1 (length (filter
                (sameEdge targetNodeName (targetIndexOf spec) (connectionTypeOf spec))
                (edgesAt (connections workflow) sourceNodeName (connectionTypeOf spec)
                   (nat (sourceIndexOf spec)))))"
proof -
  let ?conns1 = "addEdge (connections workflow) sourceNodeName targetNodeName
                   (sourceIndexOf spec) (targetIndexOf spec) (connectionTypeOf spec)"
  let ?w1 = "workflow\<lparr>connections := ?conns1\<rparr>"
  have found: "findNodeById workflow (sourceNodeId spec) \<noteq> None"
              "findNodeById workflow (targetNodeId spec) \<noteq> None"
    using src(1) tgt(1) by (auto simp: getNodeNameById_def)
  have first: "addConnectionToWorkflow workflow spec = Inr (True, ?w1)"
    using src tgt idx found
    by (simp add: addConnectionToWorkflow_def validateNodesExist_pair Let_def)
  have nodes1: "getNodeNameById ?w1 = getNodeNameById workflow"
               "findNodeById ?w1 = findNodeById workflow"
    by (simp_all add: getNodeNameById_def findNodeById_def fun_eq_iff)
  have second: "addConnectionToWorkflow ?w1 spec = Inr (True, ?w1)"
    using src tgt idx found
    by (simp add: addConnectionToWorkflow_def validateNodesExist_pair Let_def nodes1
          addEdge_idem)
  from first second addEdge_count [OF idx] show ?thesis
    by simp
qed


text \<open>
  C6 as stated fails: both IDs of the ConnectionSpec exist in the document, node A has the
  empty name, and the call returns false (the guard on falsy names). Two more inputs on
  which the statement does not hold as written: with source index -1 the call throws, and
  where the slot holds the edge twice already the call is a no-op that leaves two
  matching edges.
\<close>

theorem addConnection_empty_name_counterexample:
  "findNodeById emptyNameDoc ''A'' \<noteq> None
   \<and> findNodeById emptyNameDoc ''B'' \<noteq> None
   \<and> addConnectionToWorkflow emptyNameDoc (mkSpec ''A'' ''B'' 0) = Inr (False, emptyNameDoc)
   \<and> addConnectionToWorkflow unconnectedAB (mkSpec ''A'' ''B'' (- 1)) =
       Inl (TypeError ''Cannot read properties of undefined (reading find)'')
   \<and> addConnectionToWorkflow duplicateEdgeDoc (mkSpec ''A'' ''B'' 0) = Inr (True, duplicateEdgeDoc)
   \<and> length (filter (sameEdge ''B'' 0 ''main'')
               (edgesAt (connections duplicateEdgeDoc) ''A'' ''main'' 0)) = 2"
  by (simp add: addConnectionToWorkflow_def validateNodesExist_pair getNodeNameById_def
        findNodeById_def addEdge_def padSlots_closed sameEdge_def sourceIndexOf_def
        targetIndexOf_def connectionTypeOf_def edgesAt_def slotsAt_def
        emptyNameDoc_def unconnectedAB_def duplicateEdgeDoc_def example_defs)

theorem addConnection_idempotent_witness:
  "getNodeNameById unconnectedAB (sourceNodeId (mkSpec ''A'' ''B'' 0)) = Some ''A''
   \<and> getNodeNameById unconnectedAB (targetNodeId (mkSpec ''A'' ''B'' 0)) = Some ''B''
   \<and> 0 \<le> sourceIndexOf (mkSpec ''A'' ''B'' 0)
   \<and> (\<exists>workflow1.
         addConnectionToWorkflow unconnectedAB (mkSpec ''A'' ''B'' 0) = Inr (True, workflow1)
       \<and> addConnectionToWorkflow workflow1 (mkSpec ''A'' ''B'' 0) = Inr (True, workflow1)
       \<and> length (filter (sameEdge ''B'' 0 ''main'')
                   (edgesAt (connections workflow1) ''A'' ''main'' 0)) = 1)
   \<and> addConnectionToWorkflow unconnectedAB (mkSpec ''A'' ''B'' 0) =
       Inr (True, mkWorkflow [mkNode ''A'' ''A'', mkNode ''B'' ''B'']
                    [(''A'', [(''main'', [[mkEdge ''B'']])])])"
proof -
  let ?spec = "mkSpec ''A'' ''B'' 0"
  have src: "getNodeNameById unconnectedAB (sourceNodeId ?spec) = Some ''A''" "''A'' \<noteq> []"
    and tgt: "getNodeNameById unconnectedAB (targetNodeId ?spec) = Some ''B''" "''B'' \<noteq> []"
    by (simp_all add: getNodeNameById_def findNodeById_def unconnectedAB_def example_defs)
  have idx: "0 \<le> sourceIndexOf ?spec"
    by (simp add: sourceIndexOf_def example_defs)
  have before: "edgesAt (connections unconnectedAB) ''A'' ''main'' 0 = []"
    by (simp add: edgesAt_def slotsAt_def unconnectedAB_def example_defs)
  have params: "targetIndexOf ?spec = 0" "connectionTypeOf ?spec = ''main''"
               "nat (sourceIndexOf ?spec) = 0"
    by (simp_all add: targetIndexOf_def connectionTypeOf_def sourceIndexOf_def example_defs)
  have run: "addConnectionToWorkflow unconnectedAB ?spec =
       Inr (True, mkWorkflow [mkNode ''A'' ''A'', mkNode ''B'' ''B'']
                    [(''A'', [(''main'', [[mkEdge ''B'']])])])"
    by (simp add: addConnectionToWorkflow_def validateNodesExist_pair getNodeNameById_def
          findNodeById_def addEdge_def padSlots_closed sameEdge_def sourceIndexOf_def
          targetIndexOf_def connectionTypeOf_def unconnectedAB_def example_defs)
  from addConnection_idempotent [OF src tgt idx] src(1) tgt(1) idx run
  show ?thesis
    by (simp add: params before)
qed

section \<open>Integrity is kept by adding a connection\<close>

lemma checkNodes_names:
  "fst (snd (checkNodes ns ids names errs)) = names \<union> node_name ` set ns"
  by (induction ns arbitrary: ids names errs) (auto simp: Let_def)

lemma checkNodes_errors:
  "snd (snd (checkNodes ns ids names errs)) = [] \<longleftrightarrow>
     errs = [] \<and> distinct (map node_id ns) \<and> node_id ` set ns \<inter> ids = {}
     \<and> distinct (map node_name ns) \<and> node_name ` set ns \<inter> names = {}"
proof (induction ns arbitrary: ids names errs)
  case Nil
  then show ?case by simp
next
  case (Cons n rest)
  show ?case
    by (simp add: Cons.IH Let_def) blast
qed

lemma checkEdges_errors:
  "checkEdges names cs errs = [] \<longleftrightarrow> errs = [] \<and> (\<forall>c \<in> set cs. conn_node c \<in> names)"
  by (induction cs arbitrary: errs) auto

lemma checkConnections_errors:
  "checkConnections names conns errs = [] \<longleftrightarrow> errs = [] \<and> edgesResolve names conns"
proof (induction conns arbitrary: errs)
  case Nil
  then show ?case by (simp add: edgesResolve_def)
next
  case (Cons entry rest)
  obtain k byType where entry: "entry = (k, byType)" by (cases entry)
  have split: "edgesResolve names ((k, byType) # rest) \<longleftrightarrow>
      k \<in> names
      \<and> (\<forall>(ctype, arrays) \<in> set byType. \<forall>slot \<in> set arrays. \<forall>c \<in> set slot. conn_node c \<in> names)
      \<and> edgesResolve names rest"
    by (simp add: edgesResolve_def)
  show ?case
    unfolding entry split
    by (auto simp add: Cons.IH checkEdges_errors split_beta)
qed

text \<open>
  What the validator accepts: unique IDs, unique names, and a connection table whose keys
  and edge targets are all node names.
\<close>

lemma valid_iff:
  "isValid (validateWorkflowIntegrity workflow) \<longleftrightarrow>
     distinct (map node_id (nodes workflow)) \<and> distinct (map node_name (nodes workflow))
     \<and> edgesResolve (node_name ` set (nodes workflow)) (connections workflow)"
proof -
  obtain ids names errs where c: "checkNodes (nodes workflow) {} {} [] = (ids, names, errs)"
    by (cases "checkNodes (nodes workflow) {} {} []")
  from c have names: "names = node_name ` set (nodes workflow)"
    using checkNodes_names [of "nodes workflow" "{}" "{}" "[]"] by simp
  from c have errs: "errs = [] \<longleftrightarrow>
      distinct (map node_id (nodes workflow)) \<and> distinct (map node_name (nodes workflow))"
    using checkNodes_errors [of "nodes workflow" "{}" "{}" "[]"] by simp
  show ?thesis
    using c errs names
    by (simp add: validateWorkflowIntegrity_def Let_def checkConnections_errors)
qed

lemma set_AList_update: "set (AList.update k v al) \<subseteq> insert (k, v) (set al)"
  by (induction al) auto

lemma addEdge_resolves:
  assumes res: "edgesResolve names conns"
      and sn: "sourceNodeName \<in> names" and tn: "targetNodeName \<in> names"
      and idx: "0 \<le> srcIdx"
  shows "edgesResolve names (addEdge conns sourceNodeName targetNodeName srcIdx tgtIdx ctype)"
proof -
  let ?okSlot = "\<lambda>slot. \<forall>c \<in> set slot. conn_node c \<in> names"
  let ?okArrays = "\<lambda>arrays. \<forall>slot \<in> set arrays. ?okSlot slot"
  let ?okTypes = "\<lambda>byType. \<forall>(ctype, arrays) \<in> set byType. ?okArrays arrays"
  define byType where "byType = (case map_of conns sourceNodeName of None \<Rightarrow> [] | Some m \<Rightarrow> m)"
  define old where "old = (case map_of byType ctype of None \<Rightarrow> [] | Some a \<Rightarrow> a)"
  define arrays where "arrays = padSlots old srcIdx"
  define new where
    "new = \<lparr>conn_node = targetNodeName, conn_type = ctype, conn_index = tgtIdx\<rparr>"
  define slot' where
    "slot' = (case find (sameEdge targetNodeName tgtIdx ctype) (arrays ! nat srcIdx) of
                None \<Rightarrow> arrays ! nat srcIdx @ [new] | Some existing \<Rightarrow> arrays ! nat srcIdx)"
  define byType' where "byType' = AList.update ctype (arrays[nat srcIdx := slot']) byType"
  have result: "addEdge conns sourceNodeName targetNodeName srcIdx tgtIdx ctype
      = AList.update sourceNodeName byType' conns"
    unfolding addEdge_def Let_def byType_def old_def arrays_def new_def slot'_def byType'_def ..
  have conns_ok: "?okTypes bt" if "(k, bt) \<in> set conns" for k bt
    using res that by (fastforce simp: edgesResolve_def)
  have bt_ok: "?okTypes byType"
  proof (cases "map_of conns sourceNodeName")
    case None
    then show ?thesis by (simp add: byType_def)
  next
    case (Some m)
    then have "(sourceNodeName, m) \<in> set conns" by (rule map_of_SomeD)
    then have "?okTypes m" by (rule conns_ok)
    with Some show ?thesis by (simp add: byType_def)
  qed
  have old_ok: "?okArrays old"
  proof (cases "map_of byType ctype")
    case None
    then show ?thesis by (simp add: old_def)
  next
    case (Some a)
    then have "(ctype, a) \<in> set byType" by (rule map_of_SomeD)
    with bt_ok have "?okArrays a" by blast
    with Some show ?thesis by (simp add: old_def)
  qed
  have arrays_ok: "?okArrays arrays"
    using old_ok by (auto simp: arrays_def padSlots_closed)
  have len: "nat srcIdx < length arrays"
    using idx by (simp add: arrays_def padSlots_length)
  then have "arrays ! nat srcIdx \<in> set arrays"
    by (rule nth_mem)
  with arrays_ok have "?okSlot (arrays ! nat srcIdx)"
    by blast
  then have slot'_ok: "?okSlot slot'"
    using tn by (auto simp: slot'_def new_def split: option.splits)
  have "set (arrays[nat srcIdx := slot']) \<subseteq> insert slot' (set arrays)"
    by (rule set_update_subset_insert)
  with arrays_ok slot'_ok have arrays'_ok: "?okArrays (arrays[nat srcIdx := slot'])"
    by blast
  have "set byType' \<subseteq> insert (ctype, arrays[nat srcIdx := slot']) (set byType)"
    unfolding byType'_def by (rule set_AList_update)
  with bt_ok arrays'_ok have bt'_ok: "?okTypes byType'"
    by blast
  have sub: "set (AList.update sourceNodeName byType' conns)
               \<subseteq> insert (sourceNodeName, byType') (set conns)"
    by (rule set_AList_update)
  show ?thesis
    unfolding result edgesResolve_def
  proof (intro ballI, clarify, intro conjI)
    fix k bt
    assume mem: "(k, bt) \<in> set (AList.update sourceNodeName byType' conns)"
    with sub have cases: "(k, bt) = (sourceNodeName, byType') \<or> (k, bt) \<in> set conns"
      by blast
    from cases sn res show "k \<in> names"
      by (auto simp: edgesResolve_def)
    from cases bt'_ok conns_ok show "?okTypes bt"
      by blast
  qed
qed

text \<open>
  The half of the addressing-integrity invariant that concerns addConnectionToWorkflow
  holds: a call that returns true on a valid document leaves it valid.
\<close>

lemma addConnection_keeps_integrity:
  assumes valid: "isValid (validateWorkflowIntegrity workflow)"
      and added: "addConnectionToWorkflow workflow spec = Inr (True, workflow')"
  shows "isValid (validateWorkflowIntegrity workflow')"
proof -
  from added obtain sourceNodeName targetNodeName where
    names: "getNodeNameById workflow (sourceNodeId spec) = Some sourceNodeName"
           "getNodeNameById workflow (targetNodeId spec) = Some targetNodeName"
    and idx: "0 \<le> sourceIndexOf spec"
    and w': "workflow' = workflow\<lparr>connections :=
               addEdge (connections workflow) sourceNodeName targetNodeName
                 (sourceIndexOf spec) (targetIndexOf spec) (connectionTypeOf spec)\<rparr>"
    by (auto simp: addConnectionToWorkflow_def Let_def split: if_splits option.splits)
  have known: "nm \<in> node_name ` set (nodes workflow)"
    if "getNodeNameById workflow i = Some nm" for i nm
  proof -
    from that obtain n where "find (\<lambda>n. node_id n = i) (nodes workflow) = Some n"
      and "nm = node_name n"
      by (auto simp: getNodeNameById_def findNodeById_def)
    then show ?thesis
      by (auto simp: find_Some_iff)
  qed
  from valid have "edgesResolve (node_name ` set (nodes workflow)) (connections workflow)"
    by (simp add: valid_iff)
  then have "edgesResolve (node_name ` set (nodes workflow))
               (addEdge (connections workflow) sourceNodeName targetNodeName
                  (sourceIndexOf spec) (targetIndexOf spec) (connectionTypeOf spec))"
    using known [OF names(1)] known [OF names(2)] idx by (rule addEdge_resolves)
  with valid show ?thesis
    by (simp add: valid_iff w')
qed

section \<open>No empty leaves in the connection table\<close>

lemma scanSlots_full:
  "list_all (\<lambda>slot. slot \<noteq> []) (fst (scanSlots target mk i arrays))"
proof (induction arrays arbitrary: i)
  case Nil
  then show ?case by simp
next
  case (Cons slot rest)
  have "list_all (\<lambda>slot. slot \<noteq> []) (fst (scanSlots target mk (Suc i) rest))"
    by (rule Cons.IH)
  then show ?case
    by (auto split: prod.splits)
qed

lemma scanTypes_full:
  "list_all (\<lambda>(ctype, arrays). fullSlots arrays) (fst (scanTypes target mk byType))"
proof (induction byType)
  case Nil
  then show ?case by simp
next
  case (Cons entry rest)
  obtain ctype arrays where entry: "entry = (ctype, arrays)" by (cases entry)
  obtain arrays' removed where s: "scanSlots target (mk ctype) 0 arrays = (arrays', removed)"
    by (cases "scanSlots target (mk ctype) 0 arrays")
  have full: "fullSlots arrays'" if "arrays' \<noteq> []"
    using scanSlots_full [of target "mk ctype" 0 arrays] s that by (simp add: fullSlots_def)
  obtain rest' removedRest where r: "scanTypes target mk rest = (rest', removedRest)"
    by (cases "scanTypes target mk rest")
  from Cons.IH r have "list_all (\<lambda>(ctype, arrays). fullSlots arrays) rest'"
    by simp
  then show ?case
    using entry s r full by simp
qed

lemma scanSources_full: "noEmptyLeaves (fst (scanSources target mk conns))"
proof (induction conns)
  case Nil
  then show ?case by (simp add: noEmptyLeaves_def)
next
  case (Cons entry rest)
  obtain sourceNodeName byType where entry: "entry = (sourceNodeName, byType)" by (cases entry)
  obtain byType' removed where
    s: "scanTypes target (mk sourceNodeName) byType = (byType', removed)"
    by (cases "scanTypes target (mk sourceNodeName) byType")
  have full: "fullTypes byType'" if "byType' \<noteq> []"
    using scanTypes_full [of target "mk sourceNodeName" byType] s that
    by (simp add: fullTypes_def)
  obtain rest' removedRest where r: "scanSources target mk rest = (rest', removedRest)"
    by (cases "scanSources target mk rest")
  from Cons.IH r have "list_all (\<lambda>(sourceNodeName, byType). fullTypes byType) rest'"
    by (simp add: noEmptyLeaves_def)
  then show ?case
    using entry s r full by (simp add: noEmptyLeaves_def)
qed

lemma removeNode_noEmpty:
  "noEmptyLeaves (connections workflow) \<Longrightarrow>
   noEmptyLeaves (connections (snd (removeNodeFromWorkflow workflow nodeId)))"
proof (cases "findIndex (\<lambda>n. node_id n = nodeId) (nodes workflow)")
  case None
  assume "noEmptyLeaves (connections workflow)"
  with None show ?thesis
    by (simp add: removeNodeFromWorkflow_def)
next
  case (Some nodeIndex)
  show ?thesis
    using Some scanSources_full
    by (simp add: removeNodeFromWorkflow_def Let_def split_beta)
qed

lemma list_all_delete: "list_all P al \<Longrightarrow> list_all P (AList.delete k al)"
  by (induction al) auto

lemma list_all_update: "list_all P al \<Longrightarrow> P (k, v) \<Longrightarrow> list_all P (AList.update k v al)"
  by (induction al) auto

lemma list_all_map_of: "list_all P al \<Longrightarrow> map_of al k = Some v \<Longrightarrow> P (k, v)"
  by (auto simp: list_all_iff dest: map_of_SomeD)

lemma set_splice1: "set (splice1 i xs) \<subseteq> set xs"
proof -
  have "set (take i xs) \<subseteq> set xs" "set (drop (Suc i) xs) \<subseteq> set xs"
    by (rule set_take_subset, rule set_drop_subset)
  then show ?thesis
    by (simp add: splice1_def)
qed

lemma fullSlots_splice1:
  assumes "fullSlots arrays" "splice1 i arrays \<noteq> []"
  shows "fullSlots (splice1 i arrays)"
proof -
  have "\<forall>slot \<in> set (splice1 i arrays). slot \<noteq> []"
    using assms(1) set_splice1 [of i arrays] by (auto simp: fullSlots_def list_all_iff)
  with assms(2) show ?thesis
    by (simp add: fullSlots_def list_all_iff)
qed

lemma fullSlots_list_update:
  assumes "list_all (\<lambda>slot. slot \<noteq> []) arrays" "arrays \<noteq> []" "slot \<noteq> []"
  shows "fullSlots (arrays[i := slot])"
proof -
  have "set (arrays[i := slot]) \<subseteq> insert slot (set arrays)"
    by (rule set_update_subset_insert)
  then have "\<forall>s \<in> set (arrays[i := slot]). s \<noteq> []"
    using assms(1,3) by (auto simp: list_all_iff)
  with assms(2) show ?thesis
    by (simp add: fullSlots_def list_all_iff)
qed

lemma fullTypes_update:
  assumes "list_all (\<lambda>(ctype, arrays). fullSlots arrays) byType" "fullSlots arrays"
  shows "fullTypes (AList.update ctype arrays byType)"
  using assms by (simp add: fullTypes_def list_all_update)

lemma fullTypes_delete:
  assumes "fullTypes byType" "AList.delete ctype byType \<noteq> []"
  shows "fullTypes (AList.delete ctype byType)"
  using assms by (simp add: fullTypes_def list_all_delete)

lemma noEmpty_update:
  "noEmptyLeaves conns \<Longrightarrow> fullTypes byType \<Longrightarrow>
   noEmptyLeaves (AList.update sourceNodeName byType conns)"
  by (simp add: noEmptyLeaves_def list_all_update)

lemma noEmpty_delete:
  "noEmptyLeaves conns \<Longrightarrow> noEmptyLeaves (AList.delete sourceNodeName conns)"
  by (simp add: noEmptyLeaves_def list_all_delete)

lemma noEmpty_lookup:
  "noEmptyLeaves conns \<Longrightarrow> map_of conns sourceNodeName = Some byType \<Longrightarrow> fullTypes byType"
  by (auto simp: noEmptyLeaves_def dest: list_all_map_of)

lemma fullTypes_lookup:
  "fullTypes byType \<Longrightarrow> map_of byType ctype = Some arrays \<Longrightarrow> fullSlots arrays"
  by (auto simp: fullTypes_def dest: list_all_map_of)

lemma removeEdgeAt_noEmpty:
  assumes ne: "noEmptyLeaves conns"
      and byType: "map_of conns sourceNodeName = Some byType"
      and arrays: "map_of byType ctype = Some arrays"
  shows "noEmptyLeaves (removeEdgeAt conns sourceNodeName ctype byType arrays srcIdx connectionIndex)"
proof -
  from ne byType have ft: "fullTypes byType" by (rule noEmpty_lookup)
  from ft arrays have fs: "fullSlots arrays" by (rule fullTypes_lookup)
  have la: "list_all (\<lambda>(ctype, arrays). fullSlots arrays) byType"
    using ft by (simp add: fullTypes_def)
  have a: "fullSlots (arrays[srcIdx := slot'])" if "slot' \<noteq> []" for slot'
    using fs that by (intro fullSlots_list_update) (simp_all add: fullSlots_def)
  have b: "fullSlots (splice1 srcIdx arrays)" if "splice1 srcIdx arrays \<noteq> []"
    using fs that by (rule fullSlots_splice1)
  show ?thesis
    using ne ft la a b
    by (auto simp: removeEdgeAt_def Let_def
          intro!: noEmpty_delete noEmpty_update fullTypes_update fullTypes_delete)
qed

lemma removeConnection_noEmpty:
  assumes ne: "noEmptyLeaves (connections workflow)"
  shows "noEmptyLeaves (connections (snd (removeConnectionFromWorkflow workflow spec)))"
  using ne removeEdgeAt_noEmpty [OF ne]
  by (simp add: removeConnectionFromWorkflow_def Let_def split: option.splits)

lemma slotsAt_full:
  assumes "noEmptyLeaves conns"
  shows "list_all (\<lambda>slot. slot \<noteq> []) (slotsAt conns sourceNodeName ctype)"
proof (cases "map_of conns sourceNodeName")
  case None
  then show ?thesis by (simp add: slotsAt_def)
next
  case (Some byType)
  with assms have ft: "fullTypes byType" by (simp add: noEmpty_lookup)
  show ?thesis
  proof (cases "map_of byType ctype")
    case None
    with Some show ?thesis by (simp add: slotsAt_def)
  next
    case (Some arrays)
    with ft have "fullSlots arrays" by (simp add: fullTypes_lookup)
    with Some \<open>map_of conns sourceNodeName = Some byType\<close> show ?thesis
      by (simp add: slotsAt_def fullSlots_def)
  qed
qed

lemma addEdge_noEmpty:
  assumes ne: "noEmptyLeaves conns"
      and idx: "0 \<le> srcIdx" "srcIdx \<le> int (length (slotsAt conns sourceNodeName ctype))"
  shows "noEmptyLeaves (addEdge conns sourceNodeName targetNodeName srcIdx tgtIdx ctype)"
proof -
  define byType where "byType = (case map_of conns sourceNodeName of None \<Rightarrow> [] | Some m \<Rightarrow> m)"
  define old where "old = (case map_of byType ctype of None \<Rightarrow> [] | Some a \<Rightarrow> a)"
  define arrays where "arrays = padSlots old srcIdx"
  define new where
    "new = \<lparr>conn_node = targetNodeName, conn_type = ctype, conn_index = tgtIdx\<rparr>"
  define slot' where
    "slot' = (case find (sameEdge targetNodeName tgtIdx ctype) (arrays ! nat srcIdx) of
                None \<Rightarrow> arrays ! nat srcIdx @ [new] | Some existing \<Rightarrow> arrays ! nat srcIdx)"
  have result: "addEdge conns sourceNodeName targetNodeName srcIdx tgtIdx ctype
      = AList.update sourceNodeName (AList.update ctype (arrays[nat srcIdx := slot']) byType) conns"
    unfolding addEdge_def Let_def byType_def old_def arrays_def new_def slot'_def ..
  have old: "old = slotsAt conns sourceNodeName ctype"
    by (simp add: old_def byType_def slotsAt_def split: option.splits)
  have oldfull: "list_all (\<lambda>slot. slot \<noteq> []) old"
    unfolding old using ne by (rule slotsAt_full)
  have len: "nat srcIdx < length arrays"
    using idx(1) by (simp add: arrays_def padSlots_length)
  have "sameEdge targetNodeName tgtIdx ctype new"
    by (simp add: sameEdge_def new_def)
  then have "find (sameEdge targetNodeName tgtIdx ctype) slot' \<noteq> None"
    unfolding slot'_def by (rule find_pushed)
  then have slot': "slot' \<noteq> []"
    by auto
  have "arrays[nat srcIdx := slot'] = old[nat srcIdx := slot'] \<or>
        arrays[nat srcIdx := slot'] = old @ [slot']"
  proof (cases "srcIdx < int (length old)")
    case True
    then show ?thesis
      by (simp add: arrays_def padSlots_id)
  next
    case False
    with idx old have at_end: "nat srcIdx = length old"
      by simp
    then have "nat (srcIdx + 1) - length old = 1"
      using idx(1) by linarith
    then have "arrays = old @ [[]]"
      by (simp add: arrays_def padSlots_closed)
    with at_end show ?thesis
      by simp
  qed
  then have slots: "fullSlots (arrays[nat srcIdx := slot'])"
  proof
    assume eq: "arrays[nat srcIdx := slot'] = old[nat srcIdx := slot']"
    from len eq have "old \<noteq> []"
      by (metis length_list_update list.size(3) not_less_zero)
    with oldfull slot' show ?thesis
      unfolding eq by (intro fullSlots_list_update)
  next
    assume "arrays[nat srcIdx := slot'] = old @ [slot']"
    with oldfull slot' show ?thesis
      by (simp add: fullSlots_def)
  qed
  have la: "list_all (\<lambda>(ctype, arrays). fullSlots arrays) byType"
  proof (cases "map_of conns sourceNodeName")
    case None
    then show ?thesis by (simp add: byType_def)
  next
    case (Some m)
    with ne have "fullTypes m" by (simp add: noEmpty_lookup)
    with Some show ?thesis by (simp add: byType_def fullTypes_def)
  qed
  from la slots have "fullTypes (AList.update ctype (arrays[nat srcIdx := slot']) byType)"
    by (rule fullTypes_update)
  with ne show ?thesis
    unfolding result by (rule noEmpty_update)
qed

text \<open>
  C9, as amended. On a table without empty slot arrays, empty connection-type maps and
  empty source entries, removeConnectionFromWorkflow and removeNodeFromWorkflow leave no
  empty leaf, and neither does a returning addConnectionToWorkflow whose source index is
  at most the number of output slots already at the addressed source and type.
\<close>

theorem mutations_keep_no_empty_leaves:
  assumes ne: "noEmptyLeaves (connections workflow)"
  shows "noEmptyLeaves (connections (snd (removeConnectionFromWorkflow workflow spec)))
       \<and> noEmptyLeaves (connections (snd (removeNodeFromWorkflow workflow nodeId)))
       \<and> (\<forall>ok workflow'.
            addConnectionToWorkflow workflow spec = Inr (ok, workflow')
            \<and> (\<forall>sourceNodeName.
                  getNodeNameById workflow (sourceNodeId spec) = Some sourceNodeName \<longrightarrow>
                  sourceIndexOf spec
                    \<le> int (length (slotsAt (connections workflow) sourceNodeName
                                     (connectionTypeOf spec))))
            \<longrightarrow> noEmptyLeaves (connections workflow'))"
proof (intro conjI allI impI)
  show "noEmptyLeaves (connections (snd (removeConnectionFromWorkflow workflow spec)))"
    using ne by (rule removeConnection_noEmpty)
  show "noEmptyLeaves (connections (snd (removeNodeFromWorkflow workflow nodeId)))"
    using ne by (rule removeNode_noEmpty)
next
  fix ok workflow'
  assume a: "addConnectionToWorkflow workflow spec = Inr (ok, workflow')
            \<and> (\<forall>sourceNodeName.
                  getNodeNameById workflow (sourceNodeId spec) = Some sourceNodeName \<longrightarrow>
                  sourceIndexOf spec
                    \<le> int (length (slotsAt (connections workflow) sourceNodeName
                                     (connectionTypeOf spec))))"
  show "noEmptyLeaves (connections workflow')"
  proof (cases ok)
    case False
    with a have "workflow' = workflow"
      by (auto simp: addConnectionToWorkflow_def Let_def split: if_splits option.splits)
    with ne show ?thesis by simp
  next
    case True
    with a obtain sourceNodeName targetNodeName where
      names: "getNodeNameById workflow (sourceNodeId spec) = Some sourceNodeName"
      and idx: "0 \<le> sourceIndexOf spec"
      and w': "workflow' = workflow\<lparr>connections :=
                 addEdge (connections workflow) sourceNodeName targetNodeName
                   (sourceIndexOf spec) (targetIndexOf spec) (connectionTypeOf spec)\<rparr>"
      by (auto simp: addConnectionToWorkflow_def Let_def split: if_splits option.splits)
    from a names have "sourceIndexOf spec
        \<le> int (length (slotsAt (connections workflow) sourceNodeName (connectionTypeOf spec)))"
      by blast
    with ne idx have "noEmptyLeaves (addEdge (connections workflow) sourceNodeName targetNodeName
                   (sourceIndexOf spec) (targetIndexOf spec) (connectionTypeOf spec))"
      by (intro addEdge_noEmpty)
    with w' show ?thesis by simp
  qed
qed

text \<open>
  C9 as stated fails for addConnectionToWorkflow: adding an edge at source index 1 where
  the source has no slots yet pads the slot list with an empty array at index 0.
\<close>

theorem addConnection_padding_counterexample:
  "noEmptyLeaves (connections unconnectedAB)
   \<and> addConnectionToWorkflow unconnectedAB (mkSpec ''A'' ''B'' 1) =
       Inr (True, mkWorkflow [mkNode ''A'' ''A'', mkNode ''B'' ''B'']
                    [(''A'', [(''main'', [[], [mkEdge ''B'']])])])
   \<and> \<not> noEmptyLeaves [(''A'', [(''main'', [[], [mkEdge ''B'']])])]"
  by (simp add: addConnectionToWorkflow_def validateNodesExist_pair getNodeNameById_def
        findNodeById_def addEdge_def padSlots_closed sameEdge_def sourceIndexOf_def
        targetIndexOf_def connectionTypeOf_def unconnectedAB_def example_defs
        noEmptyLeaves_def fullTypes_def fullSlots_def numeral_2_eq_2)

theorem mutations_keep_no_empty_leaves_witness:
  "noEmptyLeaves (connections chainABC)
   \<and> noEmptyLeaves (connections (snd (removeConnectionFromWorkflow chainABC (mkSpec ''C'' ''A'' 0))))
   \<and> noEmptyLeaves (connections (snd (removeNodeFromWorkflow chainABC ''B'')))
   \<and> addConnectionToWorkflow chainABC (mkSpec ''C'' ''A'' 0) =
       Inr (True, chainABC\<lparr>connections := connections chainABC @ [(''C'', [(''main'', [[mkEdge ''A'']])])]\<rparr>)
   \<and> noEmptyLeaves (connections chainABC @ [(''C'', [(''main'', [[mkEdge ''A'']])])])"
proof -
  let ?spec = "mkSpec ''C'' ''A'' 0"
  let ?w' = "chainABC\<lparr>connections := connections chainABC @ [(''C'', [(''main'', [[mkEdge ''A'']])])]\<rparr>"
  have ne: "noEmptyLeaves (connections chainABC)"
    by (simp add: noEmptyLeaves_def fullTypes_def fullSlots_def example_defs)
  have run: "addConnectionToWorkflow chainABC ?spec = Inr (True, ?w')"
    by (simp add: addConnectionToWorkflow_def validateNodesExist_pair getNodeNameById_def
          findNodeById_def addEdge_def padSlots_closed sameEdge_def sourceIndexOf_def
          targetIndexOf_def connectionTypeOf_def example_defs)
  have fits: "\<forall>sourceNodeName.
      getNodeNameById chainABC (sourceNodeId ?spec) = Some sourceNodeName \<longrightarrow>
      sourceIndexOf ?spec
        \<le> int (length (slotsAt (connections chainABC) sourceNodeName (connectionTypeOf ?spec)))"
    by (simp add: sourceIndexOf_def example_defs)
  from mutations_keep_no_empty_leaves [OF ne, of ?spec "''B''"] ne run fits
  show ?thesis
    by auto
qed

end
